theory Spec2Isabelle
  imports Main "HOL-Library.Word"
begin

unbundle bit_operations_syntax

section \<open>Machine model\<close>

text \<open>
  The allocator of \<open>mm.c\<close> works on raw memory with 8-byte loads and stores
  (\<open>size_t\<close> tags and \<open>list_node\<close> pointers). Addresses and \<open>size_t\<close> values are
  64-bit words; arithmetic wraps as in C. Memory is a store from byte addresses to the
  8-byte word held there, together with the list of regions currently mapped by the page
  provider. A load or store outside every mapped region, or at an address that is not
  8-byte aligned, is a fault, and the operation that performs it stops with that fault.
\<close>

type_synonym addr = "64 word"
type_synonym size_t = "64 word"

datatype fault = Segfault addr | BadUnmap addr size_t

record mm_state =
  list_head :: addr
  initial_mapped :: size_t
  mem :: "addr \<Rightarrow> size_t"
  mapped :: "(addr \<times> size_t) list"
  provider :: "addr list"

definition bindE :: "fault + 'a \<Rightarrow> ('a \<Rightarrow> fault + 'b) \<Rightarrow> fault + 'b" where
  "bindE m f = (case m of Inl e \<Rightarrow> Inl e | Inr x \<Rightarrow> f x)"

definition in_region :: "addr \<Rightarrow> addr \<times> size_t \<Rightarrow> bool" where
  "in_region a r = (8 \<le> snd r \<and> a - fst r \<le> snd r - 8)"

definition valid :: "mm_state \<Rightarrow> addr \<Rightarrow> bool" where
  "valid s a = (a AND 7 = 0 \<and> list_ex (in_region a) (mapped s))"

subsection \<open>Page provider\<close>

text \<open>
  \<open>memlib.c\<close> (\<open>mem_map\<close>, \<open>mem_unmap\<close>, \<open>mem_pagesize\<close>) is not among the sources;
  the three functions follow the Page Provider interface of the specification. The
  provider's choices are an oracle in the state: the list of addresses that the coming
  \<open>mem_map\<close> calls return, 0 standing for failure; an exhausted oracle fails.
\<close>

text \<open>
  Modelled from the spec: \<open>page_size()\<close>, the provider's granularity, missing with
  \<open>memlib.c\<close>. It is 4096 in the reference encoding: \<open>mm.c\<close> writes its thresholds as
  multiples of 4096.
\<close>

definition mem_pagesize :: size_t where
  "mem_pagesize = 4096"

text \<open>
  Modelled from the spec: \<open>map(size)\<close>, missing with \<open>memlib.c\<close>. It returns a region of
  exactly \<open>size\<close> bytes with unspecified content (the memory is left as it is), or the
  null sentinel on exhaustion.
\<close>

definition mem_map :: "size_t \<Rightarrow> mm_state \<Rightarrow> addr \<times> mm_state" where
  "mem_map sz s =
     (case provider s of
        [] \<Rightarrow> (0, s)
      | a # as \<Rightarrow>
          (a, s\<lparr>provider := as,
                mapped := (if a = 0 then mapped s else (a, sz) # mapped s)\<rparr>))"

text \<open>
  Modelled from the spec: \<open>unmap(address, size)\<close>, missing with \<open>memlib.c\<close>. It releases
  a mapped region; address and size must match a prior \<open>map\<close>, and a call that matches
  no mapped region is reported as \<open>BadUnmap\<close>.
\<close>

definition mem_unmap :: "addr \<Rightarrow> size_t \<Rightarrow> mm_state \<Rightarrow> fault + mm_state" where
  "mem_unmap a sz s =
     (if (a, sz) \<in> set (mapped s)
      then Inr (s\<lparr>mapped := remove1 (a, sz) (mapped s)\<rparr>)
      else Inl (BadUnmap a sz))"

subsection \<open>Macros of \<open>mm.c\<close>\<close>

definition ALIGNMENT :: size_t where "ALIGNMENT = 16"
definition WSIZE :: size_t where "WSIZE = 8"
definition PAGE_OVERHEAD :: size_t where "PAGE_OVERHEAD = 32"
definition THRESHOLD :: size_t where "THRESHOLD = 4096 * 60"
definition OVERHEAD :: size_t where "OVERHEAD = 8 + 8"

definition ALIGN :: "size_t \<Rightarrow> size_t" where
  "ALIGN sz = (sz + (ALIGNMENT - 1)) AND NOT (ALIGNMENT - 1)"

definition PAGE_ALIGN :: "size_t \<Rightarrow> size_t" where
  "PAGE_ALIGN sz = (sz + (mem_pagesize - 1)) AND NOT (mem_pagesize - 1)"

definition PACK :: "size_t \<Rightarrow> size_t \<Rightarrow> size_t" where
  "PACK sz alloc = sz OR alloc"

definition GET :: "mm_state \<Rightarrow> addr \<Rightarrow> fault + size_t" where
  "GET s p = (if valid s p then Inr (mem s p) else Inl (Segfault p))"

definition PUT :: "addr \<Rightarrow> size_t \<Rightarrow> mm_state \<Rightarrow> fault + mm_state" where
  "PUT p val s = (if valid s p then Inr (s\<lparr>mem := (mem s)(p := val)\<rparr>) else Inl (Segfault p))"

definition GET_ALLOC :: "mm_state \<Rightarrow> addr \<Rightarrow> fault + size_t" where
  "GET_ALLOC s p = bindE (GET s p) (\<lambda>v. Inr (v AND 1))"

definition GET_SIZE :: "mm_state \<Rightarrow> addr \<Rightarrow> fault + size_t" where
  "GET_SIZE s p = bindE (GET s p) (\<lambda>v. Inr (v AND NOT 15))"

definition HDRP :: "addr \<Rightarrow> addr" where
  "HDRP bp = bp - 8"

definition FTRP :: "mm_state \<Rightarrow> addr \<Rightarrow> fault + addr" where
  "FTRP s bp = bindE (GET_SIZE s (HDRP bp)) (\<lambda>sz. Inr (bp + sz - OVERHEAD))"

definition NEXT_BLKP :: "mm_state \<Rightarrow> addr \<Rightarrow> fault + addr" where
  "NEXT_BLKP s bp = bindE (GET_SIZE s (HDRP bp)) (\<lambda>sz. Inr (bp + sz))"

definition PREV_BLKP :: "mm_state \<Rightarrow> addr \<Rightarrow> fault + addr" where
  "PREV_BLKP s bp = bindE (GET_SIZE s (bp - OVERHEAD)) (\<lambda>sz. Inr (bp - sz))"

text \<open>The fields of \<open>struct list_node\<close>: \<open>prev\<close> at offset 0, \<open>next\<close> at offset 8.\<close>

definition node_prev :: "addr \<Rightarrow> addr" where
  "node_prev n = n"

definition node_next :: "addr \<Rightarrow> addr" where
  "node_next n = n + 8"

section \<open>The allocator\<close>

text \<open>
  The functions of \<open>mm.c\<close>, statement by statement. A function that stores to memory
  or changes a global takes the state and returns the new one; \<open>Inl\<close> is a fault.
  \<open>mm_init\<close> (lines 92 to 95) assigns \<open>list_head\<close> and nothing else; \<open>add_node\<close>
  (250 to 264) and \<open>delete_node\<close> (266 to 286) read every field again where the C
  text does.
\<close>

definition mm_init :: "mm_state \<Rightarrow> int \<times> mm_state" where
  "mm_init s = (0, s\<lparr>list_head := 0\<rparr>)"

definition add_node :: "addr \<Rightarrow> mm_state \<Rightarrow> fault + mm_state" where
  "add_node bp s =
     bindE (PUT (node_next bp) (list_head s) s) (\<lambda>s1.
     bindE (if list_head s1 \<noteq> 0 then PUT (node_prev (list_head s1)) bp s1 else Inr s1) (\<lambda>s2.
     bindE (PUT (node_prev bp) 0 s2) (\<lambda>s3.
     Inr (s3\<lparr>list_head := bp\<rparr>))))"

definition delete_node :: "addr \<Rightarrow> mm_state \<Rightarrow> fault + mm_state" where
  "delete_node bp s =
     bindE (GET s (node_prev bp)) (\<lambda>p.
     if p = 0 then
       bindE (GET s (node_next bp)) (\<lambda>n.
       if n = 0 then Inr (s\<lparr>list_head := 0\<rparr>)
       else
         bindE (GET s (node_next bp)) (\<lambda>n1.
         let s1 = s\<lparr>list_head := n1\<rparr> in
         bindE (GET s1 (node_next bp)) (\<lambda>n2.
         PUT (node_prev n2) 0 s1)))
     else
       bindE (GET s (node_next bp)) (\<lambda>n.
       if n = 0 then
         bindE (GET s (node_prev bp)) (\<lambda>p1. PUT (node_next p1) 0 s)
       else
         bindE (GET s (node_prev bp)) (\<lambda>p1.
         bindE (GET s (node_next bp)) (\<lambda>n1.
         bindE (PUT (node_next p1) n1 s) (\<lambda>s1.
         bindE (GET s1 (node_next bp)) (\<lambda>n2.
         bindE (GET s1 (node_prev bp)) (\<lambda>p2.
         PUT (node_prev n2) p2 s1)))))))"

text \<open>
  \<open>find_fit\<close> (lines 288 to 298): the \<open>while\<close> loop over the list, started at
  \<open>list_head\<close>. A list with a cycle and no fitting block makes the loop run for ever,
  which is the value \<open>None\<close>.
\<close>

partial_function (option) find_fit_loop ::
  "mm_state \<Rightarrow> addr \<Rightarrow> size_t \<Rightarrow> (fault + addr) option" where
  "find_fit_loop s current asize =
     (if current \<noteq> 0 then
        (if isl (GET_SIZE s (HDRP current)) then Some (Inl (projl (GET_SIZE s (HDRP current))))
         else if projr (GET_SIZE s (HDRP current)) \<ge> asize then Some (Inr current)
         else if isl (GET s (node_next current)) then Some (Inl (projl (GET s (node_next current))))
         else find_fit_loop s (projr (GET s (node_next current))) asize)
      else Some (Inr 0))"

declare find_fit_loop.simps [code]

definition find_fit :: "mm_state \<Rightarrow> size_t \<Rightarrow> (fault + addr) option" where
  "find_fit s asize = find_fit_loop s (list_head s) asize"

text \<open>
  \<open>set_allocated\<close> (lines 151 to 167): the subtraction is on \<open>size_t\<close> and wraps;
  every macro re-reads the header it depends on, as the C macros do.
\<close>

definition set_allocated :: "addr \<Rightarrow> size_t \<Rightarrow> mm_state \<Rightarrow> fault + mm_state" where
  "set_allocated bp sz s =
     bindE (GET_SIZE s (HDRP bp)) (\<lambda>initial_size.
     let difference = initial_size - sz in
     bindE (delete_node bp s) (\<lambda>s1.
     if difference > PAGE_OVERHEAD then
       bindE (PUT (HDRP bp) (PACK sz 1) s1) (\<lambda>s2.
       bindE (FTRP s2 bp) (\<lambda>f.
       bindE (PUT f (PACK sz 1) s2) (\<lambda>s3.
       bindE (NEXT_BLKP s3 bp) (\<lambda>n.
       bindE (PUT (HDRP n) (PACK difference 0) s3) (\<lambda>s4.
       bindE (NEXT_BLKP s4 bp) (\<lambda>n1.
       bindE (FTRP s4 n1) (\<lambda>f1.
       bindE (PUT f1 (PACK difference 0) s4) (\<lambda>s5.
       bindE (NEXT_BLKP s5 bp) (\<lambda>n2.
       add_node n2 s5)))))))))
     else
       bindE (PUT (HDRP bp) (PACK initial_size 1) s1) (\<lambda>s2.
       bindE (FTRP s2 bp) (\<lambda>f.
       PUT f (PACK initial_size 1) s2))))"

text \<open>
  \<open>extend\<close> (lines 174 to 209). \<open>extend_size\<close> is the size computation at its head
  (lines 175 to 190, up to the call of \<open>mem_map\<close>): from the tracker \<open>initial_mapped\<close>
  and the request it gives the size passed to \<open>mem_map\<close> and the new value of the
  tracker. The result of \<open>mem_map\<close> is not tested before the first store.
\<close>

definition extend_size :: "size_t \<Rightarrow> size_t \<Rightarrow> size_t \<times> size_t" where
  "extend_size im s0 =
     (let initial_size = PAGE_ALIGN ((im * 2) + PAGE_OVERHEAD);
          page_size = PAGE_ALIGN (s0 + PAGE_OVERHEAD);
          (sz, im') =
            (if page_size > initial_size then (page_size, page_size)
             else if initial_size \<le> THRESHOLD then (initial_size, initial_size)
             else (im, im))
      in (PAGE_ALIGN (sz + PAGE_OVERHEAD), im'))"

definition extend :: "size_t \<Rightarrow> mm_state \<Rightarrow> fault + (addr \<times> mm_state)" where
  "extend s0 st =
     (let (sz, im') = extend_size (initial_mapped st) s0;
          (bp, st1) = mem_map sz (st\<lparr>initial_mapped := im'\<rparr>)
      in
      bindE (PUT bp 0 st1) (\<lambda>st2.
      let bp1 = bp + 8 in
      bindE (PUT bp1 (PACK 16 1) st2) (\<lambda>st3.
      let bp2 = bp1 + 8 in
      bindE (PUT bp2 (PACK 16 1) st3) (\<lambda>st4.
      let bp3 = bp2 + 8 in
      bindE (PUT bp3 (PACK (sz - PAGE_OVERHEAD) 0) st4) (\<lambda>st5.
      let bp4 = bp3 + 8 in
      bindE (FTRP st5 bp4) (\<lambda>f.
      bindE (PUT f (PACK (sz - PAGE_OVERHEAD) 0) st5) (\<lambda>st6.
      bindE (FTRP st6 bp4) (\<lambda>f1.
      bindE (PUT (f1 + 8) (PACK 0 1) st6) (\<lambda>st7.
      bindE (add_node bp4 st7) (\<lambda>st8.
      Inr (bp4, st8)))))))))))"

text \<open>\<open>coalesce\<close> (lines 216 to 245); the result is the block pointer and the state.\<close>

definition coalesce :: "addr \<Rightarrow> mm_state \<Rightarrow> fault + (addr \<times> mm_state)" where
  "coalesce bp s =
     bindE (PREV_BLKP s bp) (\<lambda>pb.
     bindE (GET_ALLOC s (HDRP pb)) (\<lambda>prev_alloc.
     bindE (NEXT_BLKP s bp) (\<lambda>nb.
     bindE (GET_ALLOC s (HDRP nb)) (\<lambda>next_alloc.
     bindE (GET_SIZE s (HDRP bp)) (\<lambda>sz.
     if prev_alloc \<noteq> 0 \<and> next_alloc \<noteq> 0 then
       bindE (add_node bp s) (\<lambda>s1. Inr (bp, s1))
     else if prev_alloc \<noteq> 0 \<and> next_alloc = 0 then
       bindE (NEXT_BLKP s bp) (\<lambda>nb1.
       bindE (GET_SIZE s (HDRP nb1)) (\<lambda>nsz.
       let sz1 = sz + nsz in
       bindE (NEXT_BLKP s bp) (\<lambda>nb2.
       bindE (delete_node nb2 s) (\<lambda>s1.
       bindE (PUT (HDRP bp) (PACK sz1 0) s1) (\<lambda>s2.
       bindE (FTRP s2 bp) (\<lambda>f.
       bindE (PUT f (PACK sz1 0) s2) (\<lambda>s3.
       bindE (add_node bp s3) (\<lambda>s4.
       Inr (bp, s4)))))))))
     else if prev_alloc = 0 \<and> next_alloc \<noteq> 0 then
       bindE (PREV_BLKP s bp) (\<lambda>pb1.
       bindE (GET_SIZE s (HDRP pb1)) (\<lambda>psz.
       let sz1 = sz + psz in
       bindE (PREV_BLKP s bp) (\<lambda>pb2.
       bindE (PUT (HDRP pb2) (PACK sz1 0) s) (\<lambda>s1.
       bindE (FTRP s1 bp) (\<lambda>f.
       bindE (PUT f (PACK sz1 0) s1) (\<lambda>s2.
       bindE (PREV_BLKP s2 bp) (\<lambda>pb3.
       Inr (pb3, s2))))))))
     else
       bindE (NEXT_BLKP s bp) (\<lambda>nb1.
       bindE (GET_SIZE s (HDRP nb1)) (\<lambda>nsz.
       bindE (PREV_BLKP s bp) (\<lambda>pb1.
       bindE (GET_SIZE s (HDRP pb1)) (\<lambda>psz.
       let sz1 = sz + (nsz + psz) in
       bindE (NEXT_BLKP s bp) (\<lambda>nb2.
       bindE (delete_node nb2 s) (\<lambda>s1.
       bindE (PREV_BLKP s1 bp) (\<lambda>pb2.
       bindE (PUT (HDRP pb2) (PACK sz1 0) s1) (\<lambda>s2.
       bindE (NEXT_BLKP s2 bp) (\<lambda>nb3.
       bindE (FTRP s2 nb3) (\<lambda>f.
       bindE (PUT f (PACK sz1 0) s2) (\<lambda>s3.
       bindE (PREV_BLKP s3 bp) (\<lambda>pb3.
       Inr (pb3, s3))))))))))))))))))"

text \<open>
  \<open>mm_malloc\<close> (lines 102 to 117) and \<open>mm_free\<close> (lines 122 to 139). The only loop is
  the list walk of \<open>find_fit\<close>; \<open>None\<close> stands for a walk that never ends. In
  \<open>mm_free\<close> the second operand of \<open>&&\<close> is read only when the first holds.
\<close>

definition mm_malloc :: "size_t \<Rightarrow> mm_state \<Rightarrow> (fault + (addr \<times> mm_state)) option" where
  "mm_malloc sz s =
     (let full_size = ALIGN (sz + OVERHEAD) in
      case find_fit s full_size of
        None \<Rightarrow> None
      | Some r \<Rightarrow>
          Some (bindE r (\<lambda>free_block.
            if free_block \<noteq> 0 then
              bindE (set_allocated free_block full_size s) (\<lambda>s1. Inr (free_block, s1))
            else
              bindE (extend full_size s) (\<lambda>(fb, s1).
              if fb \<noteq> 0 then
                bindE (set_allocated (list_head s1) full_size s1) (\<lambda>s2.
                Inr (list_head s1, s2))
              else Inr (fb, s1)))))"

definition mm_free :: "addr \<Rightarrow> mm_state \<Rightarrow> fault + mm_state" where
  "mm_free ptr s =
     bindE (GET_SIZE s (HDRP ptr)) (\<lambda>sz.
     bindE (PUT (HDRP ptr) (PACK sz 0) s) (\<lambda>s1.
     bindE (FTRP s1 ptr) (\<lambda>f.
     bindE (PUT f (PACK sz 0) s1) (\<lambda>s2.
     bindE (coalesce ptr s2) (\<lambda>(pointer, s3).
     bindE (GET_SIZE s3 (pointer - 24)) (\<lambda>psz.
     if psz = OVERHEAD then
       bindE (FTRP s3 pointer) (\<lambda>f1.
       bindE (GET_SIZE s3 (f1 + 8)) (\<lambda>esz.
       if esz = 0 then
         bindE (GET_SIZE s3 (HDRP pointer)) (\<lambda>bsz.
         if bsz \<ge> 4096 * 10 then
           bindE (delete_node pointer s3) (\<lambda>s4.
           bindE (GET_SIZE s4 (HDRP pointer)) (\<lambda>bsz1.
           let map_size = bsz1 + PAGE_OVERHEAD in
           mem_unmap (pointer - PAGE_OVERHEAD) map_size s4))
         else Inr s3)
       else Inr s3))
     else Inr s3))))))"

section \<open>Scenarios\<close>

text \<open>
  The process at start: the globals \<open>list_head\<close> and \<open>initial_mapped\<close> are zero (static
  storage), nothing is mapped, and the page provider will answer the coming \<open>mem_map\<close>
  calls with the addresses of \<open>pr\<close>. \<open>start pr\<close> is that process after \<open>mm_init\<close>.
\<close>

definition fresh :: "addr list \<Rightarrow> mm_state" where
  "fresh pr = \<lparr>list_head = 0, initial_mapped = 0, mem = (\<lambda>_. 0), mapped = [], provider = pr\<rparr>"

definition start :: "addr list \<Rightarrow> mm_state" where
  "start pr = snd (mm_init (fresh pr))"

text \<open>
  \<open>after_malloc sz s P\<close>: the call \<open>mm_malloc sz\<close> in state \<open>s\<close> returns, without a fault,
  a pointer and a state that satisfy \<open>P\<close>; \<open>after_free\<close> likewise for \<open>mm_free\<close>.
\<close>

definition after_malloc :: "size_t \<Rightarrow> mm_state \<Rightarrow> (addr \<Rightarrow> mm_state \<Rightarrow> bool) \<Rightarrow> bool" where
  "after_malloc sz s P = (case mm_malloc sz s of Some (Inr (p, s')) \<Rightarrow> P p s' | _ \<Rightarrow> False)"

definition after_free :: "addr \<Rightarrow> mm_state \<Rightarrow> (mm_state \<Rightarrow> bool) \<Rightarrow> bool" where
  "after_free p s P = (case mm_free p s of Inr s' \<Rightarrow> P s' | _ \<Rightarrow> False)"

text \<open>The same for the internal calls \<open>extend\<close>, \<open>set_allocated\<close> and \<open>coalesce\<close>.\<close>

definition after_extend :: "size_t \<Rightarrow> mm_state \<Rightarrow> (addr \<Rightarrow> mm_state \<Rightarrow> bool) \<Rightarrow> bool" where
  "after_extend sz s P = (case extend sz s of Inr (p, s') \<Rightarrow> P p s' | Inl e \<Rightarrow> False)"

definition after_set_allocated ::
  "addr \<Rightarrow> size_t \<Rightarrow> mm_state \<Rightarrow> (mm_state \<Rightarrow> bool) \<Rightarrow> bool" where
  "after_set_allocated bp sz s P =
     (case set_allocated bp sz s of Inr s' \<Rightarrow> P s' | Inl e \<Rightarrow> False)"

definition after_coalesce :: "addr \<Rightarrow> mm_state \<Rightarrow> (addr \<Rightarrow> mm_state \<Rightarrow> bool) \<Rightarrow> bool" where
  "after_coalesce bp s P = (case coalesce bp s of Inr (p, s') \<Rightarrow> P p s' | Inl e \<Rightarrow> False)"

text \<open>
  \<open>payload_in_chunk s p n\<close>: the \<open>n\<close> bytes that start at \<open>p\<close> lie inside one mapped
  chunk. \<open>in_payload p n a\<close>: address \<open>a\<close> is one of these bytes.
\<close>

definition payload_in_chunk :: "mm_state \<Rightarrow> addr \<Rightarrow> size_t \<Rightarrow> bool" where
  "payload_in_chunk s p n = list_ex (\<lambda>r. unat (p - fst r) + unat n \<le> unat (snd r)) (mapped s)"

definition in_payload :: "addr \<Rightarrow> size_t \<Rightarrow> addr \<Rightarrow> bool" where
  "in_payload p n a = (a - p < n)"

text \<open>
  \<open>state_after_malloc sz s\<close>: the state in which a successful \<open>mm_malloc sz\<close> leaves
  the allocator (the state is kept when the call does not return a block);
  \<open>state_after_free p s\<close>: the state after \<open>mm_free p\<close> (kept when the call faults).
\<close>

definition state_after_malloc :: "size_t \<Rightarrow> mm_state \<Rightarrow> mm_state" where
  "state_after_malloc sz s = (case mm_malloc sz s of Some (Inr (p, s')) \<Rightarrow> s' | _ \<Rightarrow> s)"

definition state_after_free :: "addr \<Rightarrow> mm_state \<Rightarrow> mm_state" where
  "state_after_free p s = (case mm_free p s of Inr s' \<Rightarrow> s' | Inl e \<Rightarrow> s)"

section \<open>The free list as a data structure\<close>

text \<open>
  Payload pointers are multiples of 16. \<open>dll m prv h xs\<close>: in memory \<open>m\<close>, following
  \<open>next\<close> from \<open>h\<close> visits exactly the nodes \<open>xs\<close> and ends at null, and every node's
  \<open>prev\<close> is the node before it (\<open>prv\<close> for the first). \<open>free_list s xs\<close>: the list that
  starts at \<open>list_head\<close> is such a chain of distinct, aligned nodes whose two link
  fields are mapped. \<open>well_linked\<close> spells out the three link conditions on their own.
\<close>

definition aligned16 :: "addr \<Rightarrow> bool" where
  "aligned16 a = (a AND 15 = 0)"

fun dll :: "(addr \<Rightarrow> size_t) \<Rightarrow> addr \<Rightarrow> addr \<Rightarrow> addr list \<Rightarrow> bool" where
  "dll m prv h [] = (h = 0)"
| "dll m prv h (x # xs) =
     (h = x \<and> x \<noteq> 0 \<and> m (node_prev x) = prv \<and> dll m x (m (node_next x)) xs)"

definition node_ok :: "mm_state \<Rightarrow> addr \<Rightarrow> bool" where
  "node_ok s x = (aligned16 x \<and> valid s (node_prev x) \<and> valid s (node_next x))"

definition free_list :: "mm_state \<Rightarrow> addr list \<Rightarrow> bool" where
  "free_list s xs = (dll (mem s) 0 (list_head s) xs \<and> distinct xs \<and> list_all (node_ok s) xs)"

definition well_linked :: "mm_state \<Rightarrow> addr list \<Rightarrow> bool" where
  "well_linked s xs =
     ((list_head s = 0 \<or> mem s (node_prev (list_head s)) = 0) \<and>
      list_all (\<lambda>x. (mem s (node_next x) = 0 \<or> mem s (node_prev (mem s (node_next x))) = x) \<and>
                    (mem s (node_prev x) = 0 \<or> mem s (node_next (mem s (node_prev x))) = x)) xs)"

text \<open>
  The stores of \<open>add_node\<close> and \<open>delete_node\<close> as functions on the memory, and the states
  they lead to.
\<close>

definition link_mem :: "(addr \<Rightarrow> size_t) \<Rightarrow> addr \<Rightarrow> addr \<Rightarrow> (addr \<Rightarrow> size_t)" where
  "link_mem m h bp =
     (let m1 = m(node_next bp := h);
          m2 = (if h \<noteq> 0 then m1(node_prev h := bp) else m1)
      in m2(node_prev bp := 0))"

definition unlink_mem :: "(addr \<Rightarrow> size_t) \<Rightarrow> addr \<Rightarrow> (addr \<Rightarrow> size_t)" where
  "unlink_mem m bp =
     (let p = m (node_prev bp); n = m (node_next bp);
          m1 = (if p \<noteq> 0 then m(node_next p := n) else m)
      in if n \<noteq> 0 then m1(node_prev n := p) else m1)"

definition linked :: "addr \<Rightarrow> mm_state \<Rightarrow> mm_state" where
  "linked bp s = s\<lparr>mem := link_mem (mem s) (list_head s) bp, list_head := bp\<rparr>"

definition unlinked :: "addr \<Rightarrow> mm_state \<Rightarrow> mm_state" where
  "unlinked bp s =
     s\<lparr>mem := unlink_mem (mem s) bp,
       list_head := (if mem s (node_prev bp) = 0 then mem s (node_next bp) else list_head s)\<rparr>"

text \<open>A mapped region with a free list of two nodes, 4128 and 4192.\<close>

definition two_free_nodes :: mm_state where
  "two_free_nodes =
     \<lparr>list_head = 4128, initial_mapped = 4096,
      mem = (\<lambda>_. 0)(4136 := 4192, 4192 := 4128),
      mapped = [(4096, 8192)], provider = []\<rparr>"

text \<open>
  \<open>chunk_two_free\<close>: one chunk of two pages at 65536 after two allocations of 100 bytes
  and the release of the first; its free list holds the released block 65568 (128
  bytes) and the remainder 65824 (7904 bytes).
\<close>

definition chunk_two_free :: mm_state where
  "chunk_two_free =
     state_after_free 65568 (state_after_malloc 100 (state_after_malloc 100 (start [65536])))"

text \<open>
  The six boundary tags that \<open>coalesce bp\<close> reads or writes: header of the predecessor
  \<open>pb\<close>, its footer (just below the header of \<open>bp\<close>), header and footer of \<open>bp\<close>, and
  header and footer of the successor \<open>nb\<close> of size \<open>nsz\<close>.
\<close>

definition coalesce_tags :: "addr \<Rightarrow> addr \<Rightarrow> addr \<Rightarrow> size_t \<Rightarrow> addr list" where
  "coalesce_tags pb bp nb nsz =
     [HDRP pb, bp - OVERHEAD, HDRP bp, nb - OVERHEAD, HDRP nb, nb + nsz - OVERHEAD]"

text \<open>
  \<open>chunk_gap\<close>: one chunk with three allocations of 100 bytes, of which the first
  (65568) and the third (65824) were released; the third has merged with the rest of the
  chunk. The block in the middle, 65696, is still allocated.
\<close>

definition chunk_gap :: mm_state where
  "chunk_gap =
     state_after_free 65824 (state_after_free 65568
       (state_after_malloc 100 (state_after_malloc 100 (state_after_malloc 100 (start [65536])))))"

section \<open>The growth policy in the words of the specification\<close>

text \<open>
  The doubling-with-cap policy as the specification words it, for comparison with
  \<open>extend_size\<close>: the candidate is \<open>max (2 * tracker) needed\<close> plus the chunk overhead,
  rounded to pages; at or below the threshold it is used and recorded; otherwise the
  page-rounded request is used and recorded when it exceeds the tracker, and else the
  tracker is reused. The result is (size to request, new tracker).
\<close>

definition spec_extend_size :: "size_t \<Rightarrow> size_t \<Rightarrow> size_t \<times> size_t" where
  "spec_extend_size tracker needed =
     (let candidate = PAGE_ALIGN (max (2 * tracker) needed + PAGE_OVERHEAD) in
      if candidate \<le> THRESHOLD then (candidate, candidate)
      else if PAGE_ALIGN (needed + PAGE_OVERHEAD) > tracker
      then (PAGE_ALIGN (needed + PAGE_OVERHEAD), PAGE_ALIGN (needed + PAGE_OVERHEAD))
      else (tracker, tracker))"

section \<open>Properties\<close>

lemmas macro_defs = ALIGNMENT_def WSIZE_def PAGE_OVERHEAD_def THRESHOLD_def OVERHEAD_def
  ALIGN_def PAGE_ALIGN_def PACK_def GET_def PUT_def GET_ALLOC_def GET_SIZE_def HDRP_def
  FTRP_def NEXT_BLKP_def PREV_BLKP_def node_prev_def node_next_def mem_pagesize_def
  valid_def in_region_def bindE_def

lemmas op_defs = mm_malloc_def mm_free_def mm_init_def find_fit_def set_allocated_def
  extend_def extend_size_def coalesce_def add_node_def delete_node_def mem_map_def
  mem_unmap_def

lemmas scenario_defs = fresh_def start_def after_malloc_def after_free_def
  after_extend_def after_set_allocated_def after_coalesce_def
  payload_in_chunk_def in_payload_def

subsection \<open>Out of memory\<close>

text \<open>
  C3 (code defect). The claim: when no free block fits and the page provider cannot map,
  \<open>allocate\<close> returns the null sentinel. The code: \<open>extend\<close> does not test the result
  of \<open>mem_map\<close> (the test is commented out) and stores the padding word through it.
  Evaluated on the process right after \<open>mm_init\<close>, with a provider that has nothing to
  give: \<open>mm_malloc 100\<close> does not return null, it faults at address 0.
\<close>

theorem mm_malloc_oom_faults:
  "mm_malloc 100 (start []) = Some (Inl (Segfault 0))"
  by (simp add: scenario_defs op_defs macro_defs find_fit_loop.simps)

text \<open>
  C9 (code defect, the same one as C3). The claim: \<open>allocate(0)\<close> never crashes. With an
  empty free list and a provider that cannot map, \<open>mm_malloc 0\<close> computes the needed size
  16, finds no block, calls \<open>extend\<close> and faults at address 0 like any other size.
\<close>

theorem mm_malloc_zero_oom_faults:
  "ALIGN (0 + OVERHEAD) = 16 \<and> mm_malloc 0 (start []) = Some (Inl (Segfault 0))"
  by (simp add: scenario_defs op_defs macro_defs find_fit_loop.simps)

subsection \<open>Capacity of the returned block\<close>

text \<open>
  C1 (code defect). The claim: after a successful \<open>allocate(size)\<close> the pointer is
  16-byte aligned and \<open>size\<close> usable bytes follow it. In \<open>extend\<close>, the third branch
  (\<open>size = initial_mapped\<close>) maps a chunk from the tracker alone, also when the request
  is larger. Scenario: \<open>allocate(163792)\<close> sets the tracker to 40 pages and maps a chunk
  of 41 pages at 1216512; \<open>allocate(204752)\<close> needs 204768 bytes, gets a chunk of 41
  pages (167936 bytes) mapped just below the first one, and returns its block all the
  same: the pointer is aligned, but the 204752 bytes after it do not fit in the chunk
  and run over the first, still live, block \<open>x\<close> of the neighbouring chunk.
\<close>

theorem mm_malloc_short_chunk:
  "after_malloc 163792 (start [1216512, 1048576]) (\<lambda>x s1.
     after_malloc 204752 s1 (\<lambda>p s2.
       x = 1216544 \<and> p = 1048608 \<and> p AND 15 = 0 \<and>
       mapped s2 = [(1048576, 167936), (1216512, 167936)] \<and>
       \<not> payload_in_chunk s2 p 204752 \<and>
       in_payload p 204752 x))"
  by (simp add: scenario_defs op_defs macro_defs find_fit_loop.simps Let_def)

subsection \<open>Boundary tags after release\<close>

text \<open>
  C8 (code defect). The claim: after every public operation the header and the footer
  of every block hold the same (size, allocated) word. \<open>allocate(0)\<close> makes a block of
  16 bytes, which has no room for the two links of a free-list node. Scenario:
  \<open>z = allocate(0)\<close>, \<open>b = allocate(100)\<close>, \<open>release(z)\<close>. Both neighbours of \<open>z\<close> are
  allocated, so \<open>add_node z\<close> stores \<open>prev\<close> over the footer of \<open>z\<close> and \<open>next\<close> over
  the header of \<open>b\<close>: afterwards \<open>z\<close> has header 16 and footer 0, and the live block \<open>b\<close>
  has a header that is a list pointer (65712) and the footer 129.
\<close>

theorem mm_free_small_block_breaks_tags:
  "after_malloc 0 (start [65536]) (\<lambda>z s1.
     after_malloc 100 s1 (\<lambda>b s2.
       z = 65568 \<and> b = 65584 \<and>
       GET s2 (HDRP z) = Inr 17 \<and> bindE (FTRP s2 z) (GET s2) = Inr 17 \<and>
       GET s2 (HDRP b) = Inr 129 \<and> bindE (FTRP s2 b) (GET s2) = Inr 129 \<and>
       after_free z s2 (\<lambda>s3.
         GET s3 (HDRP z) = Inr 16 \<and> GET s3 z = Inr 0 \<and>
         GET s3 (HDRP b) = Inr 65712 \<and> GET s3 (b + 128 - 16) = Inr 129)))"
  by (simp add: scenario_defs op_defs macro_defs find_fit_loop.simps Let_def)

subsection \<open>Returning a chunk\<close>

text \<open>
  C6 (code defect). The claim: after coalescing, the chunk is unmapped exactly when the
  block is bounded by the prologue and the epilogue of its chunk and is larger than 10
  pages; otherwise the block stays in the free list. \<open>mm_free\<close> takes the word 24 bytes
  below the payload for the prologue header when its size field is 16, and a live block
  of 16 bytes made by \<open>allocate(0)\<close> has the same header. Scenario: two allocations fill
  the first chunk; \<open>z = allocate(0)\<close> opens a chunk of 12 pages at 1048576 and
  \<open>b = allocate(49088)\<close> takes the rest of it; \<open>release(b)\<close>. The block \<open>b\<close> follows \<open>z\<close>,
  not the prologue, yet \<open>mm_free\<close> removes it from the free list and calls
  \<open>mem_unmap\<close> on 49136 bytes from 1048592, which is no mapped chunk and holds \<open>z\<close>.
\<close>

theorem mm_free_unmaps_behind_small_block:
  "after_malloc 20000 (start [65536, 1048576]) (\<lambda>x s1.
     after_malloc 4512 s1 (\<lambda>y s2.
       after_malloc 0 s2 (\<lambda>z s3.
         after_malloc 49088 s3 (\<lambda>b s4.
           z = 1048608 \<and> b = 1048624 \<and> list_head s4 = 0 \<and>
           mapped s4 = [(1048576, 49152), (65536, 24576)] \<and>
           GET s4 (HDRP z) = Inr 17 \<and>
           mm_free b s4 = Inl (BadUnmap 1048592 49136)))))"
  by (simp add: scenario_defs op_defs macro_defs find_fit_loop.simps Let_def)

subsection \<open>Initialisation\<close>

text \<open>
  \<open>mm_init\<close> returns 0 and assigns \<open>list_head\<close>; it assigns nothing else, so the
  growth tracker keeps the value it has when \<open>mm_init\<close> is called.
\<close>

lemma mm_init_effect: "mm_init s = (0, s\<lparr>list_head := 0\<rparr>)"
  by (simp add: mm_init_def)


subsection \<open>Page rounding\<close>

lemma and_not_mask12: "(x::64 word) AND NOT (mask 12) = push_bit 12 (drop_bit 12 x)"
  by (auto simp add: bit_eq_iff bit_simps) 

lemma mask12: "(4095 :: 64 word) = mask 12"
  by (simp add: mask_eq_exp_minus_1)

lemma and_not_4095: "(x::64 word) AND NOT 4095 = (x div 4096) * 4096"
  unfolding mask12 and_not_mask12 by (simp add: push_bit_eq_mult drop_bit_eq_div)

lemma unat_and_not_4095: "unat ((x::64 word) AND NOT 4095) = (unat x div 4096) * 4096"
proof -
  have d: "unat (x div 4096) = unat x div 4096"
    by (simp add: unat_div)
  have "unat x < 2 ^ 64"
    using unsigned_less [of x] by simp
  then have "unat (x div 4096) * unat (4096 :: 64 word) < 2 ^ LENGTH(64)"
    unfolding d by simp
  then have "unat (x div 4096 * 4096) = unat (x div 4096) * unat (4096 :: 64 word)"
    by (simp only: unat_mult_lem)
  then show ?thesis
    unfolding and_not_4095 d by simp
qed

lemma unat_PAGE_ALIGN:
  assumes "unat x + 4095 < 2 ^ 64"
  shows "unat (PAGE_ALIGN x) = (unat x + 4095) div 4096 * 4096"
proof -
  have "unat (x + 4095) = unat x + 4095"
    using assms by (simp add: unat_add_lem [THEN iffD1])
  moreover have "PAGE_ALIGN x = (x + 4095) AND NOT 4095"
    by (simp add: PAGE_ALIGN_def mem_pagesize_def)
  ultimately show ?thesis
    by (simp only: unat_and_not_4095)
qed

lemma unat_plus_overhead:
  "unat (x::64 word) < 2 ^ 63 \<Longrightarrow> unat (x + PAGE_OVERHEAD) = unat x + 32"
  by (simp add: PAGE_OVERHEAD_def unat_add_lem [THEN iffD1])

lemma PAGE_ALIGN_overhead_mono:
  assumes "x \<le> y" "unat y < 2 ^ 63"
  shows "PAGE_ALIGN (x + PAGE_OVERHEAD) \<le> PAGE_ALIGN (y + PAGE_OVERHEAD)"
proof -
  have xy: "unat x \<le> unat y" using assms(1) by (simp add: word_le_nat_alt)
  then have x: "unat x < 2 ^ 63" using assms(2) by simp
  have "(unat x + 32 + 4095) div 4096 * 4096 \<le> (unat y + 32 + 4095) div 4096 * 4096"
    using xy by (simp add: div_le_mono)
  moreover have "unat (PAGE_ALIGN (x + PAGE_OVERHEAD)) = (unat x + 32 + 4095) div 4096 * 4096"
    using x by (simp add: unat_PAGE_ALIGN unat_plus_overhead)
  moreover have "unat (PAGE_ALIGN (y + PAGE_OVERHEAD)) = (unat y + 32 + 4095) div 4096 * 4096"
    using assms(2) by (simp add: unat_PAGE_ALIGN unat_plus_overhead)
  ultimately show ?thesis
    by (simp only: word_le_nat_alt)
qed

lemma PAGE_ALIGN_overhead_gt:
  assumes "unat x < 2 ^ 63"
  shows "x < PAGE_ALIGN (x + PAGE_OVERHEAD)"
proof -
  have "(unat x + 32 + 4095) mod 4096 < 4096"
    by simp
  moreover have "(unat x + 32 + 4095) div 4096 * 4096 =
      (unat x + 32 + 4095) - (unat x + 32 + 4095) mod 4096"
    by (simp only: minus_mod_eq_div_mult)
  ultimately have "unat x < (unat x + 32 + 4095) div 4096 * 4096"
    by linarith
  moreover have "unat (PAGE_ALIGN (x + PAGE_OVERHEAD)) = (unat x + 32 + 4095) div 4096 * 4096"
    using assms by (simp add: unat_PAGE_ALIGN unat_plus_overhead)
  ultimately show ?thesis
    by (simp only: word_less_nat_alt)
qed

lemma unat_double: "unat (im::64 word) < 2 ^ 62 \<Longrightarrow> unat (2 * im) = 2 * unat im"
  using unat_mult_lem [of 2 im] by simp

subsection \<open>The size requested by \<open>extend\<close>\<close>

text \<open>
  C5 (counterexample). The claim: \<open>extend\<close> requests exactly the size of the
  doubling-with-cap policy, with no further overhead. For the first request of 16 bytes
  the policy gives one page; \<open>extend\<close> adds \<open>PAGE_OVERHEAD\<close> once more and rounds again,
  and requests two pages.
\<close>

theorem extend_size_counterexample:
  "extend_size 0 16 = (8192, 4096) \<and> spec_extend_size 0 16 = (4096, 4096) \<and>
   fst (extend_size 0 16) \<noteq> fst (spec_extend_size 0 16)"
  by (simp add: extend_size_def spec_extend_size_def macro_defs)

text \<open>
  The second difference is the branch that reuses the tracker: it is taken whenever the
  page-rounded request is not above the page-rounded double of the tracker, also when
  the request is above the tracker itself. With a tracker of 40 pages and a request of
  204768 bytes the policy asks for 50 pages, \<open>extend\<close> for 41 (see C1).
\<close>

lemma extend_size_reuses_small_tracker:
  "extend_size 163840 204768 = (167936, 163840) \<and>
   spec_extend_size 163840 204768 = (204800, 204800)"
  by (simp add: extend_size_def spec_extend_size_def macro_defs)

text \<open>
  C5 (amended). Without arithmetic overflow (tracker and request below \<open>2 ^ 62\<close>), and
  outside the case where the candidate is above the threshold and the page-rounded
  request is above the tracker but not above the page-rounded double of the tracker,
  the tracker recorded by \<open>extend\<close> is the one of the policy, and the size requested
  from the page provider is the policy's size plus \<open>PAGE_OVERHEAD\<close>, rounded up to pages
  once more.
\<close>

theorem extend_size_policy:
  assumes im: "unat im < 2 ^ 62" and s: "unat s < 2 ^ 62"
    and noslip: "\<not> (THRESHOLD < PAGE_ALIGN (max (2 * im) s + PAGE_OVERHEAD) \<and>
           im < PAGE_ALIGN (s + PAGE_OVERHEAD) \<and>
           PAGE_ALIGN (s + PAGE_OVERHEAD) \<le> PAGE_ALIGN (2 * im + PAGE_OVERHEAD))"
  shows "extend_size im s =
           (PAGE_ALIGN (fst (spec_extend_size im s) + PAGE_OVERHEAD), snd (spec_extend_size im s))"
proof -
  define P where "P = PAGE_ALIGN (s + PAGE_OVERHEAD)"
  define D where "D = PAGE_ALIGN (2 * im + PAGE_OVERHEAD)"
  define C where "C = PAGE_ALIGN (max (2 * im) s + PAGE_OVERHEAD)"
  have d2: "unat (2 * im) < 2 ^ 63" using im by (simp add: unat_double)
  have s2: "unat s < 2 ^ 63" using s by simp
  have m1: "D \<le> P" if "2 * im \<le> s"
    unfolding D_def P_def using that s2 by (rule PAGE_ALIGN_overhead_mono)
  have m2: "P \<le> D" if "\<not> 2 * im \<le> s"
    unfolding D_def P_def using that d2 by (intro PAGE_ALIGN_overhead_mono) simp_all
  have "im \<le> 2 * im" using im by (simp add: word_le_nat_alt unat_double)
  moreover have "2 * im < D" unfolding D_def using d2 by (rule PAGE_ALIGN_overhead_gt)
  ultimately have m3: "im < D" by simp
  have Ceq: "C = (if 2 * im \<le> s then P else D)"
    by (simp add: C_def P_def D_def max_def)
  have code: "extend_size im s =
      (let (sz, im') = (if D < P then (P, P) else if D \<le> THRESHOLD then (D, D) else (im, im))
       in (PAGE_ALIGN (sz + PAGE_OVERHEAD), im'))"
    by (simp add: extend_size_def Let_def P_def D_def mult.commute)
  have spec: "spec_extend_size im s =
      (if C \<le> THRESHOLD then (C, C) else if im < P then (P, P) else (im, im))"
    by (simp add: spec_extend_size_def Let_def P_def C_def)
  have ns: "\<not> (THRESHOLD < C \<and> im < P \<and> P \<le> D)"
    using noslip by (simp add: C_def P_def D_def)
  show ?thesis
  proof (cases "2 * im \<le> s")
    case True
    with Ceq m1 have "C = P" "D \<le> P" by simp_all
    then show ?thesis
      using ns m3 unfolding code spec by (auto simp: not_le not_less)
  next
    case False
    with Ceq m2 have "C = D" "P \<le> D" by simp_all
    then show ?thesis
      using ns m3 unfolding code spec by (auto simp: not_le not_less)
  qed
qed


theorem extend_size_policy_witness:
  "unat (163840 :: size_t) < 2 ^ 62 \<and> unat (100 :: size_t) < 2 ^ 62 \<and>
   \<not> (THRESHOLD < PAGE_ALIGN (max (2 * 163840) 100 + PAGE_OVERHEAD) \<and>
      163840 < PAGE_ALIGN (100 + PAGE_OVERHEAD) \<and>
      PAGE_ALIGN (100 + PAGE_OVERHEAD) \<le> PAGE_ALIGN (2 * 163840 + PAGE_OVERHEAD)) \<and>
   extend_size 163840 100 =
     (PAGE_ALIGN (fst (spec_extend_size 163840 100) + PAGE_OVERHEAD),
      snd (spec_extend_size 163840 100)) \<and>
   spec_extend_size 163840 100 = (163840, 163840) \<and>
   extend_size 163840 100 = (167936, 163840)"
proof -
  have h1: "unat (163840 :: size_t) < 2 ^ 62" by simp
  have h2: "unat (100 :: size_t) < 2 ^ 62" by simp
  have h3: "\<not> (THRESHOLD < PAGE_ALIGN (max (2 * 163840) 100 + PAGE_OVERHEAD) \<and>
      163840 < PAGE_ALIGN (100 + PAGE_OVERHEAD) \<and>
      PAGE_ALIGN (100 + PAGE_OVERHEAD) \<le> PAGE_ALIGN (2 * 163840 + PAGE_OVERHEAD))"
    by (simp add: macro_defs)
  have v: "spec_extend_size 163840 100 = (163840, 163840)"
    by (simp add: spec_extend_size_def macro_defs)
  have w: "extend_size 163840 100 = (167936, 163840)"
    by (simp add: extend_size_def macro_defs)
  from extend_size_policy [OF h1 h2 h3] h1 h2 h3 v w show ?thesis
    by blast
qed

subsection \<open>Alignment\<close>

lemma mask4: "(15 :: 64 word) = mask 4"
  by (simp add: mask_eq_exp_minus_1)

lemma aligned16_take_bit: "aligned16 a = (take_bit 4 a = 0)"
  by (simp add: aligned16_def mask4 take_bit_eq_mask)

lemma aligned16_dvd: "aligned16 a = (16 dvd a)"
  using take_bit_eq_0_iff [of 4 a]
  by (simp add: aligned16_take_bit)

lemma aligned16_bit: "aligned16 a \<Longrightarrow> n < 4 \<Longrightarrow> \<not> bit a n"
proof
  assume a: "aligned16 a" and n: "n < 4" and b: "bit a n"
  from n b have "bit (take_bit 4 a) n"
    by (simp add: bit_take_bit_iff)
  with a show False
    by (simp add: aligned16_take_bit)
qed

lemma aligned16_add: "aligned16 a \<Longrightarrow> aligned16 b \<Longrightarrow> aligned16 (a + b)"
  by (simp add: aligned16_dvd)

lemma aligned16_diff: "aligned16 a \<Longrightarrow> aligned16 b \<Longrightarrow> aligned16 (a - b)"
  by (simp add: aligned16_dvd)

lemma not15: "NOT (15 :: 64 word) = NOT (mask 4)"
  by (simp add: mask4)

lemma aligned16_size: "aligned16 (v AND NOT 15)"
proof -
  have "take_bit 4 (v AND NOT (mask 4)) = 0"
    by (rule bit_word_eqI) (simp add: bit_simps)
  then show ?thesis
    by (simp only: aligned16_take_bit not15)
qed

lemma aligned16_and_not: 
  assumes "aligned16 a" shows "a AND NOT 15 = a"
  unfolding not15
proof (rule bit_word_eqI)
  fix n assume "n < LENGTH(64)"
  show "bit (a AND NOT (mask 4)) n = bit a n"
    using aligned16_bit [OF assms, of n] \<open>n < LENGTH(64)\<close> by (auto simp: bit_simps)
qed

lemma pack1_size:
  assumes "aligned16 a" shows "(a OR 1) AND NOT 15 = a"
  unfolding not15
proof (rule bit_word_eqI)
  fix n assume "n < LENGTH(64)"
  show "bit ((a OR 1) AND NOT (mask 4)) n = bit a n"
    using aligned16_bit [OF assms, of n] \<open>n < LENGTH(64)\<close> by (auto simp: bit_simps)
qed

lemma aligned16_plus8:
  assumes "aligned16 x" shows "(x + 8) AND 15 = 8"
proof -
  have "x AND 8 = x AND (15 AND 8)" by simp
  also have "\<dots> = (x AND 15) AND 8" by (simp only: and.assoc)
  also have "\<dots> = 0" using assms by (simp add: aligned16_def)
  finally have "x + 8 = x OR 8" by (rule disjunctive_add_eq_or)
  then have "(x + 8) AND 15 = (x AND 15) OR (8 AND 15)"
    by (simp only: bit.conj_disj_distrib2)
  then show ?thesis using assms by (simp add: aligned16_def)
qed

lemma cell_neq: "aligned16 x \<Longrightarrow> aligned16 y \<Longrightarrow> x + 8 \<noteq> y"
  using aligned16_plus8 [of x] by (auto simp: aligned16_def)

subsection \<open>The free list under \<open>add_node\<close> and \<open>delete_node\<close>\<close>

lemma aligned16_0: "aligned16 0"
  by (simp add: aligned16_def)

lemma cell_neq2: "aligned16 x \<Longrightarrow> aligned16 y \<Longrightarrow> y \<noteq> x + 8"
  using cell_neq [of x y] by auto

lemma valid_mem_update [simp]: "valid (s\<lparr>mem := m\<rparr>) a = valid s a"
  by (simp add: valid_def)

lemma valid_head_update [simp]: "valid (s\<lparr>list_head := h\<rparr>) a = valid s a"
  by (simp add: valid_def)

lemma dll_frame:
  "dll m prv h xs \<Longrightarrow>
   (\<And>x. x \<in> set xs \<Longrightarrow> m' (node_prev x) = m (node_prev x) \<and> m' (node_next x) = m (node_next x)) \<Longrightarrow>
   dll m' prv h xs"
  by (induction xs arbitrary: prv h) auto

lemma dll_not_null: "dll m prv h xs \<Longrightarrow> 0 \<notin> set xs"
  by (induction xs arbitrary: prv h) auto

lemma dll_next_mem:
  "dll m prv h xs \<Longrightarrow> x \<in> set xs \<Longrightarrow> m (node_next x) \<in> insert 0 (set xs)"
proof (induction xs arbitrary: prv h)
  case Nil
  then show ?case by simp
next
  case (Cons y ys)
  show ?case
  proof (cases "x = y")
    case True
    with Cons.prems show ?thesis by (cases ys) auto
  next
    case False
    with Cons show ?thesis by auto
  qed
qed

lemma dll_prev_mem:
  "dll m prv h xs \<Longrightarrow> x \<in> set xs \<Longrightarrow> m (node_prev x) \<in> insert prv (set xs)"
proof (induction xs arbitrary: prv h)
  case Nil
  then show ?case by simp
next
  case (Cons y ys)
  show ?case
  proof (cases "x = y")
    case True
    with Cons.prems show ?thesis by auto
  next
    case False
    with Cons.prems have "m (node_prev x) \<in> insert y (set ys)"
      by (intro Cons.IH [of y "m (node_next y)"]) auto
    then show ?thesis by auto
  qed
qed

lemma dll_prev_mem_tail:
  "dll m prv h xs \<Longrightarrow> x \<in> set xs \<Longrightarrow> x \<noteq> h \<Longrightarrow> m (node_prev x) \<in> set xs"
proof (cases xs)
  case Nil
  assume "x \<in> set xs" with Nil show ?thesis by simp
next
  case (Cons y ys)
  assume a: "dll m prv h xs" "x \<in> set xs" "x \<noteq> h"
  with Cons have "dll m y (m (node_next y)) ys" "x \<in> set ys" by auto
  then have "m (node_prev x) \<in> insert y (set ys)" by (rule dll_prev_mem)
  with Cons show ?thesis by auto
qed

lemma dll_unlink:
  assumes "dll m prv h xs" "distinct xs" "\<And>x. x \<in> set xs \<Longrightarrow> aligned16 x"
    "bp \<in> set xs" "prv \<notin> set xs" "aligned16 prv"
  shows "dll (unlink_mem m bp) prv (if h = bp then m (node_next bp) else h) (remove1 bp xs)"
  using assms
proof (induction xs arbitrary: prv h)
  case Nil
  then show ?case by simp
next
  case (Cons x t)
  let ?p = "m (node_prev bp)" and ?n = "m (node_next bp)" and ?m' = "unlink_mem m bp"
  from Cons.prems have hx: "h = x" and x0: "x \<noteq> 0" and mx: "m (node_prev x) = prv"
    and tl: "dll m x (m (node_next x)) t" by auto
  from Cons.prems have dt: "distinct t" and xt: "x \<notin> set t" and ax: "aligned16 x"
    and at: "\<And>z. z \<in> set t \<Longrightarrow> aligned16 z" by auto
  from tl have t0: "0 \<notin> set t" by (rule dll_not_null)
  show ?case
  proof (cases "bp = x")
    case True
    have p: "?p = prv" using True mx by simp
    show ?thesis
    proof (cases t)
      case Nil
      with tl True hx show ?thesis by simp
    next
      case (Cons y t')
      with tl have n: "?n = y" and y0: "y \<noteq> 0" and my: "m (node_prev y) = x"
        and tl': "dll m y (m (node_next y)) t'" using True by auto
      have ay: "aligned16 y" using at Cons by simp
      have yprv: "y \<noteq> prv" using Cons.prems(5) Cons by auto
      have m'y: "?m' (node_prev y) = prv"
        using n y0 p by (simp add: unlink_mem_def Let_def)
      have m'y8: "?m' (node_next y) = m (node_next y)"
        using n y0 p yprv by (simp add: unlink_mem_def Let_def node_next_def node_prev_def)
      have "dll ?m' y (m (node_next y)) t'"
      proof (rule dll_frame [OF tl'])
        fix z assume z: "z \<in> set t'"
        then have az: "aligned16 z" using at Cons by simp
        have zy: "z \<noteq> y" using dt Cons z by auto
        have zprv: "z \<noteq> prv" using Cons.prems(5) Cons z by auto
        show "?m' (node_prev z) = m (node_prev z) \<and> ?m' (node_next z) = m (node_next z)"
          using n p zy zprv cell_neq [OF az ay] cell_neq2 [OF \<open>aligned16 prv\<close> az]
          by (simp add: unlink_mem_def Let_def node_next_def node_prev_def)
      qed
      with m'y m'y8 y0 n True hx Cons show ?thesis by simp
    qed
  next
    case False
    with Cons.prems have bt: "bp \<in> set t" by simp
    have ap: "aligned16 ?p"
      using dll_prev_mem [OF tl bt] ax at by auto
    have nin: "?n \<in> insert 0 (set t)"
      using dll_next_mem [OF tl bt] .
    then have an: "aligned16 ?n" using at aligned16_0 by auto
    have nx: "?n \<noteq> 0 \<Longrightarrow> ?n \<noteq> x" using nin xt by auto
    have m'x: "?m' (node_prev x) = prv"
      using mx nx cell_neq2 [OF ap ax]
      by (auto simp add: unlink_mem_def Let_def node_next_def node_prev_def)
    have IH: "dll ?m' x (if m (node_next x) = bp then ?n else m (node_next x)) (remove1 bp t)"
      using tl dt at bt xt ax by (rule Cons.IH)
    have m'x8: "?m' (node_next x) = (if m (node_next x) = bp then ?n else m (node_next x))"
    proof (cases "m (node_next x) = bp")
      case True
      then have "t \<noteq> []" using bt by auto
      then obtain y t' where t: "t = y # t'" by (cases t) auto
      with tl True have "y = bp" "m (node_prev bp) = x" by auto
      then show ?thesis
        using True x0 cell_neq [OF ax an]
        by (simp add: unlink_mem_def Let_def node_next_def node_prev_def)
    next
      case False
      have "?p \<in> set t"
        using tl bt False by (intro dll_prev_mem_tail [OF tl bt]) auto
      then have "?p \<noteq> x" using xt by auto
      then show ?thesis
        using False cell_neq [OF ax an]
        by (simp add: unlink_mem_def Let_def node_next_def node_prev_def)
    qed
    show ?thesis
      using False hx x0 m'x IH m'x8 by simp
  qed
qed

lemma dll_prev_neq:
  "dll m prv h xs \<Longrightarrow> distinct xs \<Longrightarrow> prv \<notin> set xs \<Longrightarrow> x \<in> set xs \<Longrightarrow> m (node_prev x) \<noteq> x"
proof (induction xs arbitrary: prv h)
  case Nil
  then show ?case by simp
next
  case (Cons y ys)
  show ?case
  proof (cases "x = y")
    case True
    with Cons.prems show ?thesis by auto
  next
    case False
    with Cons.prems show ?thesis
      by (intro Cons.IH [of y "m (node_next y)"]) auto
  qed
qed

lemma free_list_node_ok: "free_list s xs \<Longrightarrow> x \<in> set xs \<Longrightarrow> node_ok s x"
  by (simp add: free_list_def list_all_iff)

lemma free_list_not_null: "free_list s xs \<Longrightarrow> 0 \<notin> set xs"
  unfolding free_list_def using dll_not_null by blast

lemma GET_valid: "valid s a \<Longrightarrow> GET s a = Inr (mem s a)"
  by (simp add: GET_def)

lemma PUT_valid: "valid s a \<Longrightarrow> PUT a v s = Inr (s\<lparr>mem := (mem s)(a := v)\<rparr>)"
  by (simp add: PUT_def)

lemma bindE_Inr [simp]: "bindE (Inr x) f = f x"
  by (simp add: bindE_def)

lemma bindE_Inl [simp]: "bindE (Inl e) f = Inl e"
  by (simp add: bindE_def)

lemma delete_node_unlinked:
  assumes fl: "free_list s xs" and bp: "bp \<in> set xs"
  shows "delete_node bp s = Inr (unlinked bp s)"
proof -
  let ?p = "mem s (node_prev bp)" and ?n = "mem s (node_next bp)"
  from fl have d: "dll (mem s) 0 (list_head s) xs" and dist: "distinct xs"
    by (simp_all add: free_list_def)
  have z: "0 \<notin> set xs" using fl by (rule free_list_not_null)
  have okbp: "node_ok s bp" using fl bp by (rule free_list_node_ok)
  have pin: "?p \<in> insert 0 (set xs)" using dll_prev_mem [OF d bp] .
  have nin: "?n \<in> insert 0 (set xs)" using dll_next_mem [OF d bp] .
  have okp: "?p \<noteq> 0 \<Longrightarrow> node_ok s ?p" using pin free_list_node_ok [OF fl] by auto
  have okn: "?n \<noteq> 0 \<Longrightarrow> node_ok s ?n" using nin free_list_node_ok [OF fl] by auto
  have pbp: "?p \<noteq> bp" using dll_prev_neq [OF d dist z bp] .
  have vb: "valid s (node_prev bp)" "valid s (node_next bp)" "aligned16 bp"
    using okbp by (simp_all add: node_ok_def)
  show ?thesis
  proof (cases "?p = 0")
    case True
    show ?thesis
    proof (cases "?n = 0")
      case n0: True
      with True vb show ?thesis
        by (simp add: delete_node_def unlinked_def unlink_mem_def GET_valid Let_def)
    next
      case False
      with okn have "valid s (node_prev ?n)" by (simp add: node_ok_def)
      with True False vb show ?thesis
        by (simp add: delete_node_def unlinked_def unlink_mem_def GET_valid PUT_valid Let_def)
    qed
  next
    case False
    with okp have vp: "valid s (node_next ?p)" and ap: "aligned16 ?p"
      by (simp_all add: node_ok_def)
    show ?thesis
    proof (cases "?n = 0")
      case n0: True
      with False vb vp show ?thesis
        by (simp add: delete_node_def unlinked_def unlink_mem_def GET_valid PUT_valid Let_def)
    next
      case n1: False
      with okn have vn: "valid s (node_prev ?n)" by (simp add: node_ok_def)
      have r1: "node_next bp \<noteq> node_next ?p" using pbp by (simp add: node_next_def)
      have r2: "node_prev bp \<noteq> node_next ?p"
        using cell_neq2 [OF ap vb(3)] by (simp add: node_next_def node_prev_def)
      from False n1 vb vp vn r1 r2 show ?thesis
        by (simp add: delete_node_def unlinked_def unlink_mem_def GET_valid PUT_valid Let_def)
    qed
  qed
qed

lemma unlinked_free_list:
  assumes fl: "free_list s xs" and bp: "bp \<in> set xs"
  shows "free_list (unlinked bp s) (remove1 bp xs)"
proof -
  from fl have d: "dll (mem s) 0 (list_head s) xs" and dist: "distinct xs"
    and ok: "\<And>x. x \<in> set xs \<Longrightarrow> node_ok s x"
    by (simp_all add: free_list_def list_all_iff)
  have z: "0 \<notin> set xs" using fl by (rule free_list_not_null)
  have al: "\<And>x. x \<in> set xs \<Longrightarrow> aligned16 x" using ok by (simp add: node_ok_def)
  have u: "dll (unlink_mem (mem s) bp) 0
             (if list_head s = bp then mem s (node_next bp) else list_head s) (remove1 bp xs)"
    using d dist al bp z aligned16_0 by (rule dll_unlink)
  have hd: "(mem s (node_prev bp) = 0) = (list_head s = bp)"
  proof
    assume "mem s (node_prev bp) = 0"
    then show "list_head s = bp"
      using dll_prev_mem_tail [OF d bp] z by auto
  next
    assume "list_head s = bp"
    then show "mem s (node_prev bp) = 0"
      using d bp by (cases xs) auto
  qed
  have "list_all (node_ok (unlinked bp s)) (remove1 bp xs)"
    using ok by (auto simp: list_all_iff node_ok_def unlinked_def dest: notin_set_remove1)
  with u hd dist show ?thesis
    by (simp add: free_list_def unlinked_def)
qed

lemma add_node_linked:
  assumes fl: "free_list s xs" and ok: "node_ok s bp"
  shows "add_node bp s = Inr (linked bp s)"
proof -
  from fl have d: "dll (mem s) 0 (list_head s) xs" by (simp add: free_list_def)
  have "list_head s \<noteq> 0 \<Longrightarrow> valid s (node_prev (list_head s))"
    using d free_list_node_ok [OF fl, of "list_head s"] by (cases xs) (auto simp: node_ok_def)
  with ok show ?thesis
    by (simp add: add_node_def linked_def link_mem_def PUT_valid Let_def node_ok_def)
qed

lemma linked_free_list:
  assumes fl: "free_list s xs" and ok: "node_ok s bp" and nz: "bp \<noteq> 0" and new: "bp \<notin> set xs"
  shows "free_list (linked bp s) (bp # xs)"
proof -
  from fl have d: "dll (mem s) 0 (list_head s) xs" and dist: "distinct xs"
    and oks: "\<And>x. x \<in> set xs \<Longrightarrow> node_ok s x"
    by (simp_all add: free_list_def list_all_iff)
  have abp: "aligned16 bp" using ok by (simp add: node_ok_def)
  let ?m' = "link_mem (mem s) (list_head s) bp"
  have fr: "?m' (node_prev x) = (if x = list_head s then bp else mem s (node_prev x)) \<and>
            ?m' (node_next x) = mem s (node_next x)" if "x \<in> set xs" for x
  proof -
    have ax: "aligned16 x" using oks [OF that] by (simp add: node_ok_def)
    have x0: "x \<noteq> 0" using dll_not_null [OF d] that by auto
    have "aligned16 (list_head s)"
      using d oks aligned16_0 by (cases xs) (auto simp: node_ok_def)
    then have "x + 8 \<noteq> list_head s" by (rule cell_neq [OF ax])
    then show ?thesis
      using that new x0 cell_neq [OF ax abp] cell_neq [OF abp ax]
      by (auto simp: link_mem_def Let_def node_prev_def node_next_def)
  qed
  have hd: "?m' (node_prev bp) = 0" "?m' (node_next bp) = list_head s"
  proof -
    show "?m' (node_prev bp) = 0" by (simp add: link_mem_def Let_def)
    have "aligned16 (list_head s)"
      using d oks aligned16_0 by (cases xs) (auto simp: node_ok_def)
    then have "list_head s \<noteq> bp + 8" by (rule cell_neq2 [OF abp])
    then show "?m' (node_next bp) = list_head s"
      by (auto simp: link_mem_def Let_def node_prev_def node_next_def)
  qed
  have "dll ?m' bp (list_head s) xs"
  proof (cases xs)
    case Nil
    with d show ?thesis by simp
  next
    case (Cons y ys)
    with d have y: "list_head s = y" "y \<noteq> 0" and tl: "dll (mem s) y (mem s (node_next y)) ys"
      by auto
    have "dll ?m' y (mem s (node_next y)) ys"
    proof (rule dll_frame [OF tl])
      fix z assume "z \<in> set ys"
      then have "z \<in> set xs" "z \<noteq> list_head s" using Cons dist y by auto
      then show "?m' (node_prev z) = mem s (node_prev z) \<and> ?m' (node_next z) = mem s (node_next z)"
        using fr [of z] by simp
    qed
    with y Cons fr [of y] show ?thesis by simp
  qed
  with hd nz have "dll ?m' 0 bp (bp # xs)" by simp
  moreover have "list_all (node_ok (linked bp s)) (bp # xs)"
    using ok oks by (auto simp: list_all_iff node_ok_def linked_def)
  ultimately show ?thesis
    using dist new by (simp add: free_list_def linked_def)
qed

lemma dll_next_linked:
  "dll m prv h xs \<Longrightarrow>
   list_all (\<lambda>x. m (node_next x) = 0 \<or> m (node_prev (m (node_next x))) = x) xs"
proof (induction xs arbitrary: prv h)
  case Nil
  then show ?case by simp
next
  case (Cons x xs)
  then show ?case by (cases xs) auto
qed

lemma dll_prev_linked:
  "dll m prv h xs \<Longrightarrow> prv = 0 \<or> m (node_next prv) = h \<Longrightarrow>
   list_all (\<lambda>x. m (node_prev x) = 0 \<or> m (node_next (m (node_prev x))) = x) xs"
proof (induction xs arbitrary: prv h)
  case Nil
  then show ?case by simp
next
  case (Cons x xs)
  from Cons.prems have "dll m x (m (node_next x)) xs" by simp
  then have "list_all (\<lambda>x. m (node_prev x) = 0 \<or> m (node_next (m (node_prev x))) = x) xs"
    by (rule Cons.IH) simp
  with Cons.prems show ?case by auto
qed

lemma free_list_well_linked:
  assumes "free_list s xs" shows "well_linked s xs"
proof -
  from assms have d: "dll (mem s) 0 (list_head s) xs" by (simp add: free_list_def)
  have "list_head s = 0 \<or> mem s (node_prev (list_head s)) = 0"
    using d by (cases xs) auto
  moreover note dll_next_linked [OF d] dll_prev_linked [OF d]
  ultimately show ?thesis
    by (simp add: well_linked_def list_all_iff)
qed

text \<open>
  Preservation. If the free list is a well-formed doubly-linked list of nodes \<open>xs\<close>, then
  \<open>add_node\<close> of a new, aligned, mapped, non-null node returns without a fault and leaves
  the well-formed list \<open>bp # xs\<close>, and \<open>delete_node\<close> of a node of the list returns
  without a fault and leaves the well-formed list \<open>remove1 bp xs\<close>; in both results the
  head's \<open>prev\<close> is null, and \<open>node.next.prev = node\<close> and \<open>node.prev.next = node\<close> hold
  for every node whenever \<open>next\<close>, respectively \<open>prev\<close>, is not null.
\<close>

lemma free_list_preserved:
  assumes "free_list s xs"
  shows "(node_ok s bp \<and> bp \<noteq> 0 \<and> bp \<notin> set xs \<longrightarrow>
            (\<exists>s'. add_node bp s = Inr s' \<and> free_list s' (bp # xs) \<and> well_linked s' (bp # xs))) \<and>
         (bp \<in> set xs \<longrightarrow>
            (\<exists>s'. delete_node bp s = Inr s' \<and> free_list s' (remove1 bp xs) \<and>
                  well_linked s' (remove1 bp xs)))"
proof (intro conjI impI)
  assume a: "node_ok s bp \<and> bp \<noteq> 0 \<and> bp \<notin> set xs"
  then have "free_list (linked bp s) (bp # xs)"
    using assms by (intro linked_free_list) simp_all
  moreover from this have "well_linked (linked bp s) (bp # xs)"
    by (rule free_list_well_linked)
  moreover have "add_node bp s = Inr (linked bp s)"
    using assms a by (intro add_node_linked) simp_all
  ultimately show "\<exists>s'. add_node bp s = Inr s' \<and> free_list s' (bp # xs) \<and> well_linked s' (bp # xs)"
    by blast
next
  assume b: "bp \<in> set xs"
  have "free_list (unlinked bp s) (remove1 bp xs)"
    using assms b by (rule unlinked_free_list)
  moreover from this have "well_linked (unlinked bp s) (remove1 bp xs)"
    by (rule free_list_well_linked)
  moreover have "delete_node bp s = Inr (unlinked bp s)"
    using assms b by (rule delete_node_unlinked)
  ultimately show "\<exists>s'. delete_node bp s = Inr s' \<and> free_list s' (remove1 bp xs) \<and>
      well_linked s' (remove1 bp xs)"
    by blast
qed

lemma free_list_preserved_example:
  "free_list two_free_nodes [4128, 4192] \<and>
   node_ok two_free_nodes 4256 \<and> (4256 :: addr) \<noteq> 0 \<and> 4256 \<notin> set [4128, 4192 :: addr] \<and>
   4192 \<in> set [4128, 4192 :: addr] \<and>
   (\<exists>s'. add_node 4256 two_free_nodes = Inr s' \<and> free_list s' [4256, 4128, 4192] \<and>
         well_linked s' [4256, 4128, 4192]) \<and>
   (\<exists>s'. delete_node 4192 two_free_nodes = Inr s' \<and> free_list s' [4128] \<and>
         well_linked s' [4128])"
proof -
  have h: "free_list two_free_nodes [4128, 4192]"
    by (simp add: free_list_def two_free_nodes_def node_ok_def aligned16_def macro_defs)
  have n: "node_ok two_free_nodes 4256 \<and> (4256 :: addr) \<noteq> 0 \<and> 4256 \<notin> set [4128, 4192 :: addr]"
    by (simp add: two_free_nodes_def node_ok_def aligned16_def macro_defs)
  have m: "4192 \<in> set [4128, 4192 :: addr]" by simp
  from free_list_preserved [OF h, of 4256] free_list_preserved [OF h, of 4192] h n m
  show ?thesis by simp
qed

text \<open>
  C10 (code defect, the one of C8). The claim: the free list is always a well-formed
  doubly-linked list after \<open>add_node\<close> and \<open>delete_node\<close>. The two list operations
  preserve a well-formed list, but the link fields of a 16-byte block made by
  \<open>allocate(0)\<close> lie on boundary tags: \<open>next\<close> of \<open>z\<close> is the header of the block after
  it. Scenario: \<open>z = allocate(0)\<close>, \<open>b = allocate(100)\<close>, \<open>c = allocate(100)\<close>,
  \<open>release(z)\<close>, \<open>d = allocate(8320)\<close> (a second chunk at 131072); the list is the
  well-formed \<open>[139440, z, 65840]\<close>. \<open>release(c)\<close> reads the header of the live block
  \<open>b\<close>, which holds \<open>z\<close>'s \<open>next\<close>, as a free predecessor and stores the merged size
  73856 there. After \<open>release(d)\<close>, which runs \<open>delete_node\<close> and \<open>add_node\<close>, the list
  is \<open>d\<close>, \<open>z\<close> and then 73856, an address outside every chunk: \<open>z.next\<close> is not null
  and \<open>z.next.prev\<close> cannot even be read.
\<close>

theorem free_list_broken_by_tag_store:
  "after_malloc 0 (start [65536, 131072]) (\<lambda>z s1.
     after_malloc 100 s1 (\<lambda>b s2.
       after_malloc 100 s2 (\<lambda>c s3.
         after_free z s3 (\<lambda>s4.
           after_malloc 8320 s4 (\<lambda>d s5.
             z = 65568 \<and> c = 65712 \<and> d = 131104 \<and>
             free_list s5 [139440, z, 65840] \<and>
             after_free c s5 (\<lambda>s6.
               after_free d s6 (\<lambda>s7.
                 list_head s7 = d \<and>
                 GET s7 (node_prev d) = Inr 0 \<and>
                 GET s7 (node_next d) = Inr z \<and>
                 GET s7 (node_prev z) = Inr d \<and>
                 GET s7 (node_next z) = Inr 73856 \<and>
                 GET s7 (node_prev 73856) = Inl (Segfault 73856) \<and>
                 \<not> well_linked s7 [d, z])))))))"
  by (simp add: scenario_defs op_defs macro_defs find_fit_loop.simps Let_def
      free_list_def node_ok_def aligned16_def well_linked_def)

subsection \<open>Reads and writes around the list operations\<close>

lemma GET_SIZE_valid: "valid s a \<Longrightarrow> GET_SIZE s a = Inr (mem s a AND NOT 15)"
  by (simp add: GET_SIZE_def GET_valid)

lemma GET_ALLOC_valid: "valid s a \<Longrightarrow> GET_ALLOC s a = Inr (mem s a AND 1)"
  by (simp add: GET_ALLOC_def GET_valid)

lemma valid_unlinked [simp]: "valid (unlinked b s) a = valid s a"
  by (simp add: unlinked_def)

lemma valid_linked [simp]: "valid (linked b s) a = valid s a"
  by (simp add: linked_def)

lemma node_ok_mem_update [simp]: "node_ok (s\<lparr>mem := m\<rparr>) x = node_ok s x"
  by (simp add: node_ok_def)

lemma node_ok_unlinked [simp]: "node_ok (unlinked b s) x = node_ok s x"
  by (simp add: node_ok_def)

lemma free_list_frame:
  assumes "free_list s ys"
    and "\<And>y. y \<in> set ys \<Longrightarrow> m' (node_prev y) = mem s (node_prev y) \<and> m' (node_next y) = mem s (node_next y)"
  shows "free_list (s\<lparr>mem := m'\<rparr>) ys"
proof -
  from assms(1) have "dll (mem s) 0 (list_head s) ys" by (simp add: free_list_def)
  then have "dll m' 0 (list_head s) ys" using assms(2) by (rule dll_frame)
  with assms(1) show ?thesis by (simp add: free_list_def list_all_iff)
qed

lemma mem_unlinked_other:
  assumes fl: "free_list s xs" and b: "b \<in> set xs"
    and a: "\<And>y. y \<in> set xs \<Longrightarrow> y \<noteq> b \<Longrightarrow> a \<noteq> node_prev y \<and> a \<noteq> node_next y"
  shows "mem (unlinked b s) a = mem s a"
proof -
  let ?p = "mem s (node_prev b)" and ?n = "mem s (node_next b)"
  from fl have d: "dll (mem s) 0 (list_head s) xs" and dist: "distinct xs"
    by (simp_all add: free_list_def)
  have z: "0 \<notin> set xs" using fl by (rule free_list_not_null)
  have pin: "?p \<in> insert 0 (set xs)" using dll_prev_mem [OF d b] .
  have nin: "?n \<in> insert 0 (set xs)" using dll_next_mem [OF d b] .
  have pb: "?p \<noteq> b" using dll_prev_neq [OF d dist z b] .
  have nb: "?n \<noteq> 0 \<Longrightarrow> ?n \<noteq> b"
  proof -
    assume n0: "?n \<noteq> 0"
    show "?n \<noteq> b"
    proof
      assume e: "?n = b"
      obtain ys zs where s: "xs = ys @ b # zs" using b by (meson split_list)
      have "dll (mem s) prv h (ys @ b # zs) \<Longrightarrow> distinct (ys @ b # zs) \<Longrightarrow> mem s (node_next b) \<noteq> b" for prv h
      proof (induction ys arbitrary: prv h)
        case Nil
        then show ?case by (cases zs) auto
      next
        case (Cons y ys)
        then show ?case by auto
      qed
      with d dist s e show False by blast
    qed
  qed
  have "?p \<noteq> 0 \<Longrightarrow> a \<noteq> node_next ?p" using pin pb a by auto
  moreover have "?n \<noteq> 0 \<Longrightarrow> a \<noteq> node_prev ?n" using nin nb a by auto
  ultimately show ?thesis
    by (simp add: unlinked_def unlink_mem_def Let_def)
qed

lemma mem_linked_other:
  "a \<noteq> node_next b \<Longrightarrow> a \<noteq> node_prev b \<Longrightarrow> (list_head s \<noteq> 0 \<Longrightarrow> a \<noteq> node_prev (list_head s)) \<Longrightarrow>
   mem (linked b s) a = mem s a"
  by (simp add: linked_def link_mem_def Let_def)

lemma free_list_head_mem: "free_list s xs \<Longrightarrow> list_head s \<noteq> 0 \<Longrightarrow> list_head s \<in> set xs"
  by (cases xs) (auto simp: free_list_def)

lemma aligned16_neq_8: "aligned16 n \<Longrightarrow> n \<noteq> 8"
  by (auto simp: aligned16_def)

lemma not15_minus: "NOT (15 :: 64 word) = - 16"
  by simp

lemmas pack1_size_minus = pack1_size [unfolded not15_minus]

lemmas aligned16_and_minus = aligned16_and_not [unfolded not15_minus]

lemma block_addr_eqs:
  fixes bp n i :: "64 word"
  shows "(bp - 8 = bp + n + 8) = (n + 16 = 0)"
    and "(bp + i - 16 = bp + n + 8) = (i - n = 24)"
    and "(bp - 8 = bp + n) = (n + 8 = 0)"
    and "(bp + i - 16 = bp + n) = (i - n = 16)"
  by (auto simp: algebra_simps)

lemmas chunk_two_free_defs = chunk_two_free_def state_after_free_def state_after_malloc_def
  scenario_defs op_defs macro_defs find_fit_loop.simps Let_def

subsection \<open>Splitting\<close>

text \<open>
  The split on a block that fits. Let \<open>bp\<close> be a node of the well-formed free list
  \<open>xs\<close>, with size \<open>initial\<close> in its header, and let \<open>n\<close> be a needed size that is a
  multiple of 16, at least 16 and at most \<open>initial\<close>; the tags involved are mapped and
  no link field of another free block lies on them. Then \<open>set_allocated bp n\<close> returns
  without a fault and removes \<open>bp\<close> from the list. With \<open>d = initial - n\<close>: if \<open>d\<close>
  exceeds 32, header and footer of the block at \<open>bp\<close> hold \<open>(n, allocated)\<close>, the block
  at \<open>r = bp + n\<close> has header and footer \<open>(d, free)\<close> and is the new head of the list;
  otherwise header and footer of \<open>bp\<close> hold \<open>(initial, allocated)\<close> and nothing is
  inserted.
\<close>

lemma set_allocated_splits:
  fixes bp n initial r d :: "64 word"
  assumes fl: "free_list s xs" and bp: "bp \<in> set xs"
    and hv: "valid s (HDRP bp)" and init: "initial = mem s (HDRP bp) AND NOT 15"
    and n: "aligned16 n" "16 \<le> n" "n \<le> initial"
    and r: "r = bp + n" and d: "d = initial - n"
    and fv: "valid s (bp + initial - OVERHEAD)"
    and sv: "PAGE_OVERHEAD < d \<Longrightarrow>
         valid s (bp + n - OVERHEAD) \<and> valid s (HDRP r) \<and> valid s (node_prev r) \<and>
         valid s (node_next r) \<and> r \<noteq> 0 \<and> r \<notin> set xs"
    and sep: "\<And>y. y \<in> set xs \<Longrightarrow> y \<noteq> bp \<Longrightarrow>
         node_prev y \<notin> {HDRP bp, bp + n - OVERHEAD, HDRP r, bp + initial - OVERHEAD} \<and>
         node_next y \<notin> {HDRP bp, bp + n - OVERHEAD, HDRP r, bp + initial - OVERHEAD}"
  shows "\<exists>s'. set_allocated bp n s = Inr s' \<and>
     (if PAGE_OVERHEAD < d then
        mem s' (HDRP bp) = PACK n 1 \<and> mem s' (bp + n - OVERHEAD) = PACK n 1 \<and>
        mem s' (HDRP r) = PACK d 0 \<and> mem s' (r + d - OVERHEAD) = PACK d 0 \<and>
        free_list s' (r # remove1 bp xs)
      else
        mem s' (HDRP bp) = PACK initial 1 \<and> mem s' (bp + initial - OVERHEAD) = PACK initial 1 \<and>
        free_list s' (remove1 bp xs))"
proof -
  define s1 where "s1 = unlinked bp s"
  define ys where "ys = remove1 bp xs"
  have dn: "delete_node bp s = Inr s1"
    unfolding s1_def using fl bp by (rule delete_node_unlinked)
  have fl1: "free_list s1 ys"
    unfolding s1_def ys_def using fl bp by (rule unlinked_free_list)
  have ysub: "\<And>y. y \<in> set ys \<Longrightarrow> y \<in> set xs \<and> y \<noteq> bp"
    using fl by (auto simp: ys_def free_list_def)
  have abp: "aligned16 bp"
    using free_list_node_ok [OF fl bp] by (simp add: node_ok_def)
  have ai: "aligned16 initial" unfolding init by (rule aligned16_size)
  have ad: "aligned16 d" unfolding d using ai n(1) by (rule aligned16_diff)
  have gs: "GET_SIZE s (HDRP bp) = Inr initial"
    using hv init by (simp add: GET_SIZE_valid)
  have i8: "initial \<noteq> 8" using ai by (rule aligned16_neq_8)
  have n8: "n \<noteq> 8" using n(1) by (rule aligned16_neq_8)
  have n0: "n \<noteq> 0" using n(2) by auto
  show ?thesis
  proof (cases "PAGE_OVERHEAD < d")
    case False
    define s3 where "s3 = s1\<lparr>mem := (mem s1)(HDRP bp := PACK initial 1,
         bp + initial - OVERHEAD := PACK initial 1)\<rparr>"
    have "set_allocated bp n s = Inr s3"
      using False gs dn hv fv ai i8 d
      by (simp add: set_allocated_def Let_def s3_def PUT_valid FTRP_def GET_SIZE_valid
          s1_def PACK_def pack1_size_minus HDRP_def OVERHEAD_def)
    moreover have "free_list s3 ys"
      unfolding s3_def
      by (rule free_list_frame [OF fl1]) (use sep ysub in \<open>auto simp: HDRP_def OVERHEAD_def\<close>)
    moreover have "mem s3 (HDRP bp) = PACK initial 1"
      using i8 by (simp add: s3_def HDRP_def OVERHEAD_def)
    moreover have "mem s3 (bp + initial - OVERHEAD) = PACK initial 1"
      by (simp add: s3_def)
    ultimately show ?thesis
      using False by (simp add: ys_def)
  next
    case True
    with sv have v: "valid s (bp + n - OVERHEAD)" "valid s (HDRP r)" "valid s (node_prev r)"
      "valid s (node_next r)" and r0: "r \<noteq> 0" and rx: "r \<notin> set xs" by simp_all
    have d32: "32 < d" using True by (simp add: PAGE_OVERHEAD_def)
    have dne: "d \<noteq> 0" "d \<noteq> 8" "d \<noteq> 16" "d \<noteq> 24" using d32 by auto
    have n16: "n + 16 \<noteq> 0" using n(2,3) d32 unfolding d by unat_arith
    have ar: "aligned16 r" unfolding r using abp n(1) by (rule aligned16_add)
    define s5 where "s5 = s1\<lparr>mem := (mem s1)(HDRP bp := PACK n 1,
         bp + n - OVERHEAD := PACK n 1, HDRP r := PACK d 0,
         bp + initial - OVERHEAD := PACK d 0)\<rparr>"
    have dd: "bp + n + (initial - n) - 16 = bp + initial - 16" by simp
    have e: "set_allocated bp n s = add_node r s5"
      using True gs dn hv fv v n(1) ad n0 n8 i8 dne dd
      by (simp add: set_allocated_def Let_def s5_def PUT_valid FTRP_def NEXT_BLKP_def
          GET_SIZE_valid s1_def PACK_def pack1_size_minus aligned16_and_minus HDRP_def OVERHEAD_def r d)
    have fl5: "free_list s5 ys"
      unfolding s5_def
      by (rule free_list_frame [OF fl1]) (use sep ysub in \<open>auto simp: HDRP_def OVERHEAD_def\<close>)
    have okr: "node_ok s5 r"
      using v ar by (simp add: node_ok_def s5_def s1_def)
    have rys: "r \<notin> set ys" using rx ysub by auto
    have an: "add_node r s5 = Inr (linked r s5)"
      using fl5 okr by (rule add_node_linked)
    have fl6: "free_list (linked r s5) (r # ys)"
      using fl5 okr r0 rys by (rule linked_free_list)
    have hd5: "list_head s5 \<noteq> 0 \<Longrightarrow> list_head s5 \<in> set xs \<and> list_head s5 \<noteq> bp"
      using free_list_head_mem [OF fl5] ysub by auto
    have oth: "mem (linked r s5) a = mem s5 a"
      if "a \<in> {HDRP bp, bp + n - OVERHEAD, HDRP r, bp + initial - OVERHEAD}" for a
    proof (rule mem_linked_other)
      have "bp - 8 \<noteq> bp + n + 8" using n16 by (simp add: block_addr_eqs)
      moreover have "bp + initial - 16 \<noteq> bp + n + 8" using dne unfolding d by (simp add: block_addr_eqs)
      ultimately show "a \<noteq> node_next r"
        using that unfolding r by (auto simp: node_next_def HDRP_def OVERHEAD_def)
      have "n + 8 \<noteq> 0" using cell_neq [OF n(1) aligned16_0] .
      then have "bp - 8 \<noteq> bp + n" by (simp add: block_addr_eqs)
      moreover have "bp + initial - 16 \<noteq> bp + n" using dne unfolding d by (simp add: block_addr_eqs)
      ultimately show "a \<noteq> node_prev r"
        using that unfolding r by (auto simp: node_prev_def HDRP_def OVERHEAD_def)
      show "a \<noteq> node_prev (list_head s5)" if "list_head s5 \<noteq> 0"
        using sep [of "list_head s5"] hd5 [OF that] \<open>a \<in> _\<close> by auto
    qed
    have m1: "mem s5 (HDRP bp) = PACK n 1"
      using n0 n8 i8 by (simp add: s5_def HDRP_def OVERHEAD_def r)
    have m2: "mem s5 (bp + n - OVERHEAD) = PACK n 1"
      using dne unfolding d by (simp add: s5_def HDRP_def OVERHEAD_def r d)
    have m3: "mem s5 (HDRP r) = PACK d 0"
      using dne unfolding d by (simp add: s5_def HDRP_def OVERHEAD_def r d)
    have m4: "mem s5 (r + d - OVERHEAD) = PACK d 0"
      by (simp add: s5_def HDRP_def OVERHEAD_def r d)
    have rd: "r + d - OVERHEAD = bp + initial - OVERHEAD" by (simp add: r d)
    from e an fl6 oth m1 m2 m3 m4 rd True show ?thesis
      by (simp add: ys_def)
  qed
qed

lemma set_allocated_splits_example:
  "free_list chunk_two_free [65568, 65824] \<and>
   mem chunk_two_free (HDRP 65824) AND NOT 15 = 7904 \<and>
   (\<exists>s'. set_allocated 65824 256 chunk_two_free = Inr s' \<and>
      mem s' (HDRP 65824) = PACK 256 1 \<and> mem s' (65824 + 256 - OVERHEAD) = PACK 256 1 \<and>
      mem s' (HDRP 66080) = PACK 7648 0 \<and> mem s' (66080 + 7648 - OVERHEAD) = PACK 7648 0 \<and>
      free_list s' [66080, 65568]) \<and>
   (\<exists>s'. set_allocated 65824 7904 chunk_two_free = Inr s' \<and>
      mem s' (HDRP 65824) = PACK 7904 1 \<and> mem s' (65824 + 7904 - OVERHEAD) = PACK 7904 1 \<and>
      free_list s' [65568])"
proof -
  have fl: "free_list chunk_two_free [65568, 65824]"
    by (simp add: free_list_def node_ok_def aligned16_def chunk_two_free_defs)
  have bp: "(65824 :: addr) \<in> set [65568, 65824]" by simp
  have hv: "valid chunk_two_free (HDRP 65824)"
    by (simp add: chunk_two_free_defs)
  have init: "(7904 :: size_t) = mem chunk_two_free (HDRP 65824) AND NOT 15"
    by (simp add: chunk_two_free_defs)
  have fv: "valid chunk_two_free (65824 + 7904 - OVERHEAD)"
    by (simp add: chunk_two_free_defs)
  have sep: "node_prev y \<notin> {HDRP 65824, 65824 + n - OVERHEAD, HDRP (65824 + n), 65824 + 7904 - OVERHEAD} \<and>
             node_next y \<notin> {HDRP 65824, 65824 + n - OVERHEAD, HDRP (65824 + n), 65824 + 7904 - OVERHEAD}"
    if "y \<in> set [65568, 65824 :: addr]" "y \<noteq> 65824" "n = 256 \<or> n = 7904" for y n :: addr
    using that by (auto simp: macro_defs)
  have a: "\<exists>s'. set_allocated 65824 256 chunk_two_free = Inr s' \<and>
     (if PAGE_OVERHEAD < 7648 then
        mem s' (HDRP 65824) = PACK 256 1 \<and> mem s' (65824 + 256 - OVERHEAD) = PACK 256 1 \<and>
        mem s' (HDRP 66080) = PACK 7648 0 \<and> mem s' (66080 + 7648 - OVERHEAD) = PACK 7648 0 \<and>
        free_list s' (66080 # remove1 65824 [65568, 65824])
      else
        mem s' (HDRP 65824) = PACK 7904 1 \<and> mem s' (65824 + 7904 - OVERHEAD) = PACK 7904 1 \<and>
        free_list s' (remove1 65824 [65568, 65824]))"
  proof (rule set_allocated_splits [OF fl bp hv init _ _ _ _ _ fv])
    show "aligned16 (256 :: size_t)" by (simp add: aligned16_def)
    show "(16 :: size_t) \<le> 256" "(256 :: size_t) \<le> 7904" by simp_all
    show "(66080 :: addr) = 65824 + 256" "(7648 :: size_t) = 7904 - 256" by simp_all
    show "valid chunk_two_free (65824 + 256 - OVERHEAD) \<and> valid chunk_two_free (HDRP 66080) \<and>
        valid chunk_two_free (node_prev 66080) \<and> valid chunk_two_free (node_next 66080) \<and>
        (66080 :: addr) \<noteq> 0 \<and> 66080 \<notin> set [65568, 65824 :: addr]"
      by (simp add: chunk_two_free_defs)
    show "node_prev y \<notin> {HDRP 65824, 65824 + 256 - OVERHEAD, HDRP 66080, 65824 + 7904 - OVERHEAD} \<and>
          node_next y \<notin> {HDRP 65824, 65824 + 256 - OVERHEAD, HDRP 66080, 65824 + 7904 - OVERHEAD}"
      if "y \<in> set [65568, 65824 :: addr]" "y \<noteq> 65824" for y
      using sep [of y 256] that by simp
  qed
  have b: "\<exists>s'. set_allocated 65824 7904 chunk_two_free = Inr s' \<and>
     (if PAGE_OVERHEAD < 0 then
        mem s' (HDRP 65824) = PACK 7904 1 \<and> mem s' (65824 + 7904 - OVERHEAD) = PACK 7904 1 \<and>
        mem s' (HDRP 73728) = PACK 0 0 \<and> mem s' (73728 + 0 - OVERHEAD) = PACK 0 0 \<and>
        free_list s' (73728 # remove1 65824 [65568, 65824])
      else
        mem s' (HDRP 65824) = PACK 7904 1 \<and> mem s' (65824 + 7904 - OVERHEAD) = PACK 7904 1 \<and>
        free_list s' (remove1 65824 [65568, 65824]))"
  proof (rule set_allocated_splits [OF fl bp hv init _ _ _ _ _ fv])
    show "aligned16 (7904 :: size_t)" by (simp add: aligned16_def)
    show "(16 :: size_t) \<le> 7904" "(7904 :: size_t) \<le> 7904" by simp_all
    show "(73728 :: addr) = 65824 + 7904" "(0 :: size_t) = 7904 - 7904" by simp_all
    show "valid chunk_two_free (65824 + 7904 - OVERHEAD) \<and> valid chunk_two_free (HDRP 73728) \<and>
        valid chunk_two_free (node_prev 73728) \<and> valid chunk_two_free (node_next 73728) \<and>
        (73728 :: addr) \<noteq> 0 \<and> 73728 \<notin> set [65568, 65824 :: addr]"
      if "PAGE_OVERHEAD < 0"
      using that by simp
    show "node_prev y \<notin> {HDRP 65824, 65824 + 7904 - OVERHEAD, HDRP 73728, 65824 + 7904 - OVERHEAD} \<and>
          node_next y \<notin> {HDRP 65824, 65824 + 7904 - OVERHEAD, HDRP 73728, 65824 + 7904 - OVERHEAD}"
      if "y \<in> set [65568, 65824 :: addr]" "y \<noteq> 65824" for y
      using sep [of y 7904] that by simp
  qed
  from a b fl init show ?thesis
    by (simp add: PAGE_OVERHEAD_def)
qed

text \<open>
  C4 (code defect, with the one of C1). The claim: with \<open>remainder = block.size - n\<close>,
  the block is cut when the remainder exceeds 32 bytes and is otherwise allocated as it
  is, with its original size. \<open>set_allocated\<close> computes the remainder on \<open>size_t\<close> and
  does not compare the two sizes, and \<open>mm_malloc\<close> hands it the head of the list after
  \<open>extend\<close> whatever its size. Scenario of C1: after \<open>allocate(163792)\<close>, no free block
  fits the needed size 204768 and \<open>extend\<close> makes a block of 167904 bytes at 1048608.
  The remainder is negative; \<open>167904 - 204768\<close> wraps to a value above 32 and
  \<open>set_allocated\<close> cuts: header and footer say 204768 bytes, allocated (the footer
  is in the next chunk), and a free block of the wrapped size is put at 1253376 and made
  the head of the free list, inside the payload of the live block \<open>x\<close>.
\<close>

theorem set_allocated_splits_short_block:
  "after_malloc 163792 (start [1216512, 1048576]) (\<lambda>x s1.
     find_fit s1 (ALIGN (204752 + OVERHEAD)) = Some (Inr 0) \<and>
     after_extend (ALIGN (204752 + OVERHEAD)) s1 (\<lambda>bp s2.
       x = 1216544 \<and> bp = 1048608 \<and> list_head s2 = bp \<and>
       ALIGN (204752 + OVERHEAD) = 204768 \<and>
       GET_SIZE s2 (HDRP bp) = Inr 167904 \<and>
       after_set_allocated (list_head s2) 204768 s2 (\<lambda>s3.
         GET s3 (HDRP bp) = Inr (PACK 204768 1) \<and>
         GET s3 (bp + 204768 - OVERHEAD) = Inr (PACK 204768 1) \<and>
         list_head s3 = bp + 204768 \<and>
         GET s3 (HDRP (bp + 204768)) = Inr (PACK (167904 - 204768) 0) \<and>
         PAGE_OVERHEAD < 167904 - (204768 :: size_t) \<and>
         in_payload x 163792 (bp + 204768))))"
  by (simp add: scenario_defs op_defs macro_defs find_fit_loop.simps Let_def)

subsection \<open>Coalescing\<close>

lemma aligned16_ge:
  assumes "aligned16 a" "a \<noteq> 0" shows "16 \<le> a"
proof (rule ccontr)
  assume "\<not> 16 \<le> a"
  then have "a < 2 ^ 4" by simp
  then have "a AND mask 4 = a" by (rule less_mask_eq)
  with assms show False by (simp add: aligned16_def mask4)
qed

lemma nowrap_sum_nonzero:
  fixes a b :: "64 word"
  assumes "unat a + unat b < 2 ^ 64" "a \<noteq> 0" shows "a + b \<noteq> 0"
proof
  assume "a + b = 0"
  then have "unat (a + b) = 0" by simp
  moreover have "unat (a + b) = unat a + unat b"
    using assms(1) by (simp add: unat_add_lem [THEN iffD1])
  ultimately have "unat a = 0" by simp
  with assms(2) show False by (simp add: unat_eq_0)
qed

lemma nowrap_sum_ge32:
  fixes a b :: "64 word"
  assumes "unat a + unat b < 2 ^ 64" "16 \<le> a" "16 \<le> b" shows "32 \<le> a + b"
proof -
  have "unat (a + b) = unat a + unat b"
    using assms(1) by (simp add: unat_add_lem [THEN iffD1])
  moreover have "16 \<le> unat a" "16 \<le> unat b"
    using assms(2,3) by (simp_all add: word_le_nat_alt)
  ultimately show ?thesis by (simp add: word_le_nat_alt)
qed

lemma merge_addr_eqs:
  fixes bp a b :: "64 word"
  shows "(bp - 8 = bp - a - 8) = (a = 0)"
    and "(bp - 16 = bp - a - 8) = (a = 8)"
    and "(bp - 16 = bp + a - 16) = (a = 0)"
    and "(bp - a - 8 = bp + b - 16) = (b + a = 8)"
    and "(bp + a - 8 = bp - b - 8) = (a + b = 0)"
    and "(bp + a - 16 = bp) = (a = 16)"
    and "(bp + a - 16 = bp + 8) = (a = 24)"
    and "(bp + a - 16 = bp - 8) = (a = 8)"
  by (auto simp: algebra_simps)

lemmas chunk_gap_defs = chunk_gap_def state_after_free_def state_after_malloc_def
  scenario_defs op_defs macro_defs find_fit_loop.simps Let_def

text \<open>
  The four cases on intact tags. Let \<open>bp\<close> be a block of size \<open>sz\<close> that is not on the
  well-formed free list \<open>xs\<close>, with predecessor \<open>pb\<close> of size \<open>psz\<close> (header and footer
  agree) and successor \<open>nb\<close> of size \<open>nsz\<close>; free neighbours are on the list, the tags
  are mapped, the sizes do not wrap around, and no link field of a listed block lies on
  a tag. Then \<open>coalesce bp\<close> returns without a fault, by the allocated bits of \<open>pb\<close> and
  \<open>nb\<close>: both allocated, \<open>bp\<close> is inserted and returned; only \<open>nb\<close> free, \<open>nb\<close> is
  removed, header and footer of \<open>bp\<close> hold \<open>sz + nsz\<close> and \<open>bp\<close> is inserted and
  returned; only \<open>pb\<close> free, header and footer at \<open>pb\<close> hold \<open>sz + psz\<close>, the list is
  unchanged and \<open>pb\<close> is returned; both free, \<open>nb\<close> is removed, header and footer at
  \<open>pb\<close> hold the sum of the three sizes, nothing is inserted and \<open>pb\<close> is returned.
\<close>

lemma coalesce_cases:
  fixes bp pb nb sz psz nsz :: "64 word"
  assumes fl: "free_list s xs"
    and okbp: "node_ok s bp" "bp \<noteq> 0" "bp \<notin> set xs"
    and sz: "sz = mem s (HDRP bp) AND NOT 15" "sz \<noteq> 0"
    and psz: "psz = mem s (bp - OVERHEAD) AND NOT 15"
    and pb: "pb = bp - psz"
    and phdr: "mem s (HDRP pb) AND NOT 15 = psz"
    and nb: "nb = bp + sz"
    and nsz: "nsz = mem s (HDRP nb) AND NOT 15"
    and nowrap: "unat psz + unat sz + unat nsz < 2 ^ 64"
    and v: "valid s (HDRP bp)" "valid s (bp - OVERHEAD)" "valid s (HDRP pb)"
      "valid s (HDRP nb)" "valid s (nb - OVERHEAD)" "valid s (nb + nsz - OVERHEAD)"
    and pfree: "mem s (HDRP pb) AND 1 = 0 \<Longrightarrow> pb \<in> set xs"
    and nfree: "mem s (HDRP nb) AND 1 = 0 \<Longrightarrow> nb \<in> set xs \<and> nsz \<noteq> 0"
    and sep: "\<And>y. y \<in> set xs \<Longrightarrow>
        node_prev y \<notin> set (coalesce_tags pb bp nb nsz) \<and>
        node_next y \<notin> set (coalesce_tags pb bp nb nsz)"
  shows "\<exists>s'.
     (if mem s (HDRP pb) AND 1 \<noteq> 0 then
        if mem s (HDRP nb) AND 1 \<noteq> 0 then
          coalesce bp s = Inr (bp, s') \<and> free_list s' (bp # xs)
        else
          coalesce bp s = Inr (bp, s') \<and> free_list s' (bp # remove1 nb xs) \<and>
          mem s' (HDRP bp) = PACK (sz + nsz) 0 \<and>
          mem s' (bp + (sz + nsz) - OVERHEAD) = PACK (sz + nsz) 0
      else
        if mem s (HDRP nb) AND 1 \<noteq> 0 then
          coalesce bp s = Inr (pb, s') \<and> free_list s' xs \<and>
          mem s' (HDRP pb) = PACK (sz + psz) 0 \<and>
          mem s' (pb + (sz + psz) - OVERHEAD) = PACK (sz + psz) 0
        else
          coalesce bp s = Inr (pb, s') \<and> free_list s' (remove1 nb xs) \<and>
          mem s' (HDRP pb) = PACK (sz + (nsz + psz)) 0 \<and>
          mem s' (pb + (sz + (nsz + psz)) - OVERHEAD) = PACK (sz + (nsz + psz)) 0)"
proof -
  let ?pa = "mem s (HDRP pb) AND 1" and ?na = "mem s (HDRP nb) AND 1"
  have abp: "aligned16 bp" using okbp(1) by (simp add: node_ok_def)
  have asz: "aligned16 sz" unfolding sz(1) by (rule aligned16_size)
  have apsz: "aligned16 psz" unfolding psz by (rule aligned16_size)
  have ansz: "aligned16 nsz" unfolding nsz by (rule aligned16_size)
  have sz16: "16 \<le> sz" using asz sz(2) by (rule aligned16_ge)
  have g1: "GET_SIZE s (bp - 16) = Inr psz"
    using v(2) psz by (simp add: GET_SIZE_valid OVERHEAD_def)
  have g2: "GET_SIZE s (bp - 8) = Inr sz"
    using v(1) sz(1) by (simp add: GET_SIZE_valid HDRP_def)
  have g3: "GET_SIZE s (bp - psz - 8) = Inr psz" "GET_ALLOC s (bp - psz - 8) = Inr ?pa"
    using v(3) phdr by (simp_all add: GET_SIZE_valid GET_ALLOC_valid HDRP_def pb)
  have g4: "GET_SIZE s (bp + sz - 8) = Inr nsz" "GET_ALLOC s (bp + sz - 8) = Inr ?na"
    using v(4) nsz by (simp_all add: GET_SIZE_valid GET_ALLOC_valid HDRP_def nb)
  have vs: "valid s (bp - 16)" "valid s (bp - 8)" "valid s (bp + sz - 8)"
    using v by (simp_all add: HDRP_def OVERHEAD_def nb)
  have septag: "a \<noteq> node_prev y \<and> a \<noteq> node_next y"
    if "y \<in> set xs" "a \<in> set (coalesce_tags pb bp nb nsz)" for y a
    using sep [OF that(1)] that(2) by auto
  show ?thesis
  proof (cases "?pa \<noteq> 0")
    case pa: True
    show ?thesis
    proof (cases "?na \<noteq> 0")
      case na: True
      have "coalesce bp s = Inr (bp, linked bp s)"
        using pa na g1 g2 g3 g4 add_node_linked [OF fl okbp(1)]
        by (simp add: coalesce_def PREV_BLKP_def NEXT_BLKP_def HDRP_def OVERHEAD_def pb nb)
      moreover have "free_list (linked bp s) (bp # xs)"
        using fl okbp by (rule linked_free_list)
      ultimately show ?thesis using pa na by auto
    next
      case False
      then have na: "?na = 0" by simp
      from nfree [OF na] have nbx: "nb \<in> set xs" and nsz0: "nsz \<noteq> 0" by simp_all
      define t where "t = sz + nsz"
      have at: "aligned16 t" unfolding t_def using asz ansz by (rule aligned16_add)
      have nsz16: "16 \<le> nsz" using ansz nsz0 by (rule aligned16_ge)
      have t32: "32 \<le> t"
        unfolding t_def using nowrap sz16 nsz16 by (intro nowrap_sum_ge32) simp_all
      have tne: "t \<noteq> 8" "t \<noteq> 16" "t \<noteq> 24" using t32 by auto
      define s1 where "s1 = unlinked nb s"
      define ys where "ys = remove1 nb xs"
      have dn: "delete_node (bp + sz) s = Inr s1"
        unfolding s1_def using delete_node_unlinked [OF fl nbx] by (simp add: nb)
      have fl1: "free_list s1 ys"
        unfolding s1_def ys_def using fl nbx by (rule unlinked_free_list)
      have ysub: "\<And>y. y \<in> set ys \<Longrightarrow> y \<in> set xs"
        using set_remove1_subset [of nb xs] by (auto simp: ys_def)
      define s3 where "s3 = s1\<lparr>mem := (mem s1)(bp - 8 := t, bp + t - 16 := t)\<rparr>"
      have ft: "bp + t - 16 = nb + nsz - OVERHEAD"
        by (simp add: t_def nb OVERHEAD_def)
      have vt: "valid s (bp + t - 16)" using v(6) by (simp only: ft)
      have e: "coalesce bp s = bindE (add_node bp s3) (\<lambda>s4. Inr (bp, s4))"
        using pa na g1 g2 g3 g4 dn v at vt
        by (simp add: coalesce_def PREV_BLKP_def NEXT_BLKP_def FTRP_def HDRP_def OVERHEAD_def
            pb nb PUT_valid GET_SIZE_valid PACK_def s1_def s3_def t_def [symmetric]
            aligned16_and_minus)
      have fl3: "free_list s3 ys"
        unfolding s3_def
      proof (rule free_list_frame [OF fl1])
        fix y assume "y \<in> set ys"
        then have y: "y \<in> set xs" by (rule ysub)
        have "bp - 8 \<in> set (coalesce_tags pb bp nb nsz)"
          by (simp add: coalesce_tags_def HDRP_def ft)
        from septag [OF y this] have "node_prev y \<noteq> bp - 8 \<and> node_next y \<noteq> bp - 8"
          by metis
        moreover have "bp + t - 16 \<in> set (coalesce_tags pb bp nb nsz)"
          by (simp add: coalesce_tags_def HDRP_def ft)
        from septag [OF y this] have "node_prev y \<noteq> bp + t - 16 \<and> node_next y \<noteq> bp + t - 16"
          by metis
        ultimately have "node_prev y \<noteq> bp - 8 \<and> node_next y \<noteq> bp - 8"
          "node_prev y \<noteq> bp + t - 16 \<and> node_next y \<noteq> bp + t - 16"
          by simp_all
        then show "((mem s1)(bp - 8 := t, bp + t - 16 := t)) (node_prev y) = mem s1 (node_prev y) \<and>
            ((mem s1)(bp - 8 := t, bp + t - 16 := t)) (node_next y) = mem s1 (node_next y)"
          by simp
      qed
      have ok3: "node_ok s3 bp" using okbp(1) by (simp add: s3_def s1_def)
      have bys: "bp \<notin> set ys" using okbp(3) ysub by auto
      have an: "add_node bp s3 = Inr (linked bp s3)" using fl3 ok3 by (rule add_node_linked)
      have fl4: "free_list (linked bp s3) (bp # ys)"
        using fl3 ok3 okbp(2) bys by (rule linked_free_list)
      have hd3: "list_head s3 \<noteq> 0 \<Longrightarrow> list_head s3 \<in> set xs"
        using free_list_head_mem [OF fl3] ysub by auto
      have oth: "mem (linked bp s3) a = mem s3 a" if "a = bp - 8 \<or> a = bp + t - 16" for a
      proof (rule mem_linked_other)
        show "a \<noteq> node_next bp" using that tne by (auto simp: node_next_def merge_addr_eqs)
        show "a \<noteq> node_prev bp" using that tne by (auto simp: node_prev_def merge_addr_eqs)
        show "a \<noteq> node_prev (list_head s3)" if h: "list_head s3 \<noteq> 0"
        proof -
          have "a \<in> set (coalesce_tags pb bp nb nsz)"
            using \<open>a = bp - 8 \<or> a = bp + t - 16\<close> by (auto simp: coalesce_tags_def HDRP_def ft)
          with septag [OF hd3 [OF h]] show ?thesis by auto
        qed
      qed
      have "mem s3 (bp - 8) = t" using tne by (simp add: s3_def merge_addr_eqs)
      moreover have "mem s3 (bp + t - 16) = t" by (simp add: s3_def)
      ultimately have "mem (linked bp s3) (HDRP bp) = PACK t 0"
        "mem (linked bp s3) (bp + t - OVERHEAD) = PACK t 0"
        using oth by (simp_all add: HDRP_def OVERHEAD_def PACK_def)
      with e an fl4 pa na show ?thesis
        by (auto simp: ys_def t_def)
    qed
  next
    case False
    then have pa: "?pa = 0" by simp
    from pfree [OF pa] have pbx: "pb \<in> set xs" .
    have psz0: "psz \<noteq> 0" using pbx okbp(3) pb by auto
    have psz8: "psz \<noteq> 8" using apsz by (rule aligned16_neq_8)
    show ?thesis
    proof (cases "?na \<noteq> 0")
      case na: True
      define t where "t = sz + psz"
      have at: "aligned16 t" unfolding t_def using asz apsz by (rule aligned16_add)
      have t8: "t \<noteq> 8" using at by (rule aligned16_neq_8)
      define s2 where "s2 = s\<lparr>mem := (mem s)(bp - psz - 8 := t, bp + sz - 16 := t)\<rparr>"
      have vf: "valid s (bp + sz - 16)" using v(5) by (simp add: nb OVERHEAD_def)
      have vp: "valid s (bp - psz - 8)" using v(3) by (simp add: pb HDRP_def)
      have e: "coalesce bp s = Inr (pb, s2)"
        using pa na g1 g2 g3 g4 vf vp vs psz0 psz8 sz(2) psz [symmetric] sz(1) [symmetric]
        by (simp add: coalesce_def PREV_BLKP_def NEXT_BLKP_def FTRP_def HDRP_def OVERHEAD_def
            pb nb PUT_valid GET_SIZE_valid PACK_def s2_def t_def [symmetric] merge_addr_eqs)
      have fl2: "free_list s2 xs"
        unfolding s2_def
      proof (rule free_list_frame [OF fl])
        fix y assume y: "y \<in> set xs"
        have "bp - psz - 8 \<in> set (coalesce_tags pb bp nb nsz)"
          by (simp add: coalesce_tags_def HDRP_def pb nb OVERHEAD_def)
        from septag [OF y this] have "node_prev y \<noteq> bp - psz - 8 \<and> node_next y \<noteq> bp - psz - 8"
          by metis
        moreover have "bp + sz - 16 \<in> set (coalesce_tags pb bp nb nsz)"
          by (simp add: coalesce_tags_def HDRP_def pb nb OVERHEAD_def)
        from septag [OF y this] have "node_prev y \<noteq> bp + sz - 16 \<and> node_next y \<noteq> bp + sz - 16"
          by metis
        ultimately have "node_prev y \<noteq> bp - psz - 8 \<and> node_next y \<noteq> bp - psz - 8"
          "node_prev y \<noteq> bp + sz - 16 \<and> node_next y \<noteq> bp + sz - 16"
          by simp_all
        then show "((mem s)(bp - psz - 8 := t, bp + sz - 16 := t)) (node_prev y) = mem s (node_prev y) \<and>
            ((mem s)(bp - psz - 8 := t, bp + sz - 16 := t)) (node_next y) = mem s (node_next y)"
          by simp
      qed
      have "bp - psz - 8 \<noteq> bp + sz - 16" using t8 by (simp add: merge_addr_eqs t_def)
      then have "mem s2 (HDRP pb) = PACK t 0"
        by (simp add: s2_def HDRP_def pb PACK_def)
      moreover have "mem s2 (pb + t - OVERHEAD) = PACK t 0"
        by (simp add: s2_def pb t_def OVERHEAD_def PACK_def)
      ultimately show ?thesis
        using e fl2 pa na by (auto simp: t_def)
    next
      case False
      then have na: "?na = 0" by simp
      from nfree [OF na] have nbx: "nb \<in> set xs" and nsz0: "nsz \<noteq> 0" by simp_all
      define t where "t = sz + (nsz + psz)"
      have at: "aligned16 t"
        unfolding t_def using asz ansz apsz by (intro aligned16_add)
      have t8: "t \<noteq> 8" using at by (rule aligned16_neq_8)
      have sp0: "sz + psz \<noteq> 0" using nowrap sz(2) by (intro nowrap_sum_nonzero) simp_all
      have sn0: "sz + nsz \<noteq> 0" using nowrap sz(2) by (intro nowrap_sum_nonzero) simp_all
      define s1 where "s1 = unlinked nb s"
      define ys where "ys = remove1 nb xs"
      have dn: "delete_node (bp + sz) s = Inr s1"
        unfolding s1_def using delete_node_unlinked [OF fl nbx] by (simp add: nb)
      have fl1: "free_list s1 ys"
        unfolding s1_def ys_def using fl nbx by (rule unlinked_free_list)
      have ysub: "\<And>y. y \<in> set ys \<Longrightarrow> y \<in> set xs"
        using set_remove1_subset [of nb xs] by (auto simp: ys_def)
      have m1: "mem s1 a = mem s a" if "a \<in> set (coalesce_tags pb bp nb nsz)" for a
        unfolding s1_def using fl nbx
      proof (rule mem_unlinked_other)
        fix y assume "y \<in> set xs" "y \<noteq> nb"
        then show "a \<noteq> node_prev y \<and> a \<noteq> node_next y" using septag that by blast
      qed
      have r1: "mem s1 (bp - 16) AND - 16 = psz" "mem s1 (bp - 8) AND - 16 = sz"
        "mem s1 (bp + sz - 8) AND - 16 = nsz"
        using m1 psz sz(1) nsz by (simp_all add: coalesce_tags_def HDRP_def OVERHEAD_def nb)
      define s3 where "s3 = s1\<lparr>mem := (mem s1)(bp - psz - 8 := t, bp + sz + nsz - 16 := t)\<rparr>"
      have vf: "valid s (bp + sz + nsz - 16)" using v(6) by (simp add: nb OVERHEAD_def)
      have vp: "valid s (bp - psz - 8)" using v(3) by (simp add: pb HDRP_def)
      have e: "coalesce bp s = Inr (pb, s3)"
        using pa na g1 g2 g3 g4 dn vf vp vs psz0 psz8 sp0 sn0 r1
        by (simp add: coalesce_def PREV_BLKP_def NEXT_BLKP_def FTRP_def HDRP_def OVERHEAD_def
            pb nb PUT_valid GET_SIZE_valid PACK_def s1_def s3_def t_def [symmetric]
            merge_addr_eqs)
      have fl3: "free_list s3 ys"
        unfolding s3_def
      proof (rule free_list_frame [OF fl1])
        fix y assume "y \<in> set ys"
        then have y: "y \<in> set xs" by (rule ysub)
        have "bp - psz - 8 \<in> set (coalesce_tags pb bp nb nsz)"
          by (simp add: coalesce_tags_def HDRP_def pb nb OVERHEAD_def)
        from septag [OF y this] have "node_prev y \<noteq> bp - psz - 8 \<and> node_next y \<noteq> bp - psz - 8"
          by metis
        moreover have "bp + sz + nsz - 16 \<in> set (coalesce_tags pb bp nb nsz)"
          by (simp add: coalesce_tags_def HDRP_def pb nb OVERHEAD_def)
        from septag [OF y this] have "node_prev y \<noteq> bp + sz + nsz - 16 \<and> node_next y \<noteq> bp + sz + nsz - 16"
          by metis
        ultimately have "node_prev y \<noteq> bp - psz - 8 \<and> node_next y \<noteq> bp - psz - 8"
          "node_prev y \<noteq> bp + sz + nsz - 16 \<and> node_next y \<noteq> bp + sz + nsz - 16"
          by simp_all
        then show "((mem s1)(bp - psz - 8 := t, bp + sz + nsz - 16 := t)) (node_prev y) = mem s1 (node_prev y) \<and>
            ((mem s1)(bp - psz - 8 := t, bp + sz + nsz - 16 := t)) (node_next y) = mem s1 (node_next y)"
          by simp
      qed
      have "bp - psz - 8 \<noteq> bp + (sz + nsz) - 16"
        using t8 by (simp only: merge_addr_eqs) (simp add: t_def add.assoc)
      then have "mem s3 (HDRP pb) = PACK t 0"
        by (simp add: s3_def HDRP_def pb PACK_def add.assoc)
      moreover have "mem s3 (pb + t - OVERHEAD) = PACK t 0"
        by (simp add: s3_def pb t_def OVERHEAD_def PACK_def)
      ultimately show ?thesis
        using e fl3 pa na by (auto simp: t_def ys_def)
    qed
  qed
qed

lemma coalesce_cases_example:
  "free_list chunk_gap [65824, 65568] \<and>
   node_ok chunk_gap 65696 \<and>
   mem chunk_gap (HDRP 65696) AND NOT 15 = 128 \<and>
   mem chunk_gap (65696 - OVERHEAD) AND NOT 15 = 128 \<and>
   mem chunk_gap (HDRP 65568) AND NOT 15 = 128 \<and>
   mem chunk_gap (HDRP 65824) AND NOT 15 = 7904 \<and>
   mem chunk_gap (HDRP 65568) AND 1 = 0 \<and>
   mem chunk_gap (HDRP 65824) AND 1 = 0 \<and>
   (\<exists>s'. coalesce 65696 chunk_gap = Inr (65568, s') \<and> free_list s' [65568] \<and>
      mem s' (HDRP 65568) = PACK 8160 0 \<and>
      mem s' (65568 + 8160 - OVERHEAD) = PACK 8160 0)"
proof -
  have fl: "free_list chunk_gap [65824, 65568]"
    by (simp add: free_list_def node_ok_def aligned16_def chunk_gap_defs)
  have ok: "node_ok chunk_gap 65696" "(65696 :: addr) \<noteq> 0" "65696 \<notin> set [65824, 65568 :: addr]"
    by (simp_all add: node_ok_def aligned16_def chunk_gap_defs)
  have sz: "(128 :: size_t) = mem chunk_gap (HDRP 65696) AND NOT 15" "(128 :: size_t) \<noteq> 0"
    by (simp_all add: chunk_gap_defs)
  have psz: "(128 :: size_t) = mem chunk_gap (65696 - OVERHEAD) AND NOT 15"
    by (simp add: chunk_gap_defs)
  have pb: "(65568 :: addr) = 65696 - 128" by simp
  have phdr: "mem chunk_gap (HDRP 65568) AND NOT 15 = 128"
    by (simp add: chunk_gap_defs)
  have nb: "(65824 :: addr) = 65696 + 128" by simp
  have nsz: "(7904 :: size_t) = mem chunk_gap (HDRP 65824) AND NOT 15"
    by (simp add: chunk_gap_defs)
  have nowrap: "unat (128 :: size_t) + unat (128 :: size_t) + unat (7904 :: size_t) < 2 ^ 64"
    by simp
  have v: "valid chunk_gap (HDRP 65696)" "valid chunk_gap (65696 - OVERHEAD)"
    "valid chunk_gap (HDRP 65568)" "valid chunk_gap (HDRP 65824)"
    "valid chunk_gap (65824 - OVERHEAD)" "valid chunk_gap (65824 + 7904 - OVERHEAD)"
    by (simp_all add: chunk_gap_defs)
  have al: "mem chunk_gap (HDRP 65568) AND 1 = 0" "mem chunk_gap (HDRP 65824) AND 1 = 0"
    by (simp_all add: chunk_gap_defs)
  have pfree: "(65568 :: addr) \<in> set [65824, 65568]" by simp
  have nfree: "(65824 :: addr) \<in> set [65824, 65568] \<and> (7904 :: size_t) \<noteq> 0" by simp
  have sep: "node_prev y \<notin> set (coalesce_tags 65568 65696 65824 7904) \<and>
             node_next y \<notin> set (coalesce_tags 65568 65696 65824 7904)"
    if "y \<in> set [65824, 65568 :: addr]" for y
    using that by (auto simp: coalesce_tags_def macro_defs)
  from coalesce_cases [OF fl ok sz psz pb phdr nb nsz nowrap v pfree nfree sep] al
  have "\<exists>s'. coalesce 65696 chunk_gap = Inr (65568, s') \<and>
      free_list s' (remove1 65824 [65824, 65568]) \<and>
      mem s' (HDRP 65568) = PACK (128 + (7904 + 128)) 0 \<and>
      mem s' (65568 + (128 + (7904 + 128)) - OVERHEAD) = PACK (128 + (7904 + 128)) 0"
    by simp
  with fl ok(1) sz(1) psz phdr nsz al show ?thesis
    by simp
qed

text \<open>
  C2 (code defect, the one of C8). The claim: on every release \<open>coalesce\<close> merges by the
  state of the two neighbours. \<open>coalesce\<close> takes that state from the header words, and
  the header of a live block that follows a released 16-byte block holds a list pointer.
  Scenario: \<open>z = allocate(0)\<close>, \<open>b = allocate(100)\<close>, \<open>c = allocate(100)\<close>,
  \<open>release(z)\<close>, \<open>d = allocate(8320)\<close>, \<open>release(c)\<close>. The block \<open>c\<close> is intact
  (header and footer 129); its predecessor \<open>b\<close> is allocated and its successor, the
  rest of the chunk (7888 bytes), is free. By the claim the successor is removed, \<open>c\<close>
  gets the size 8016 and is inserted. The header of \<open>b\<close> holds \<open>z.next\<close> = 65840, whose
  low bit is 0: \<open>coalesce c\<close> takes the both-free case and returns the live block \<open>b\<close>;
  after \<open>release(c)\<close> the header of \<open>c\<close> still says 128 bytes, the header of \<open>b\<close>
  says 73856 bytes, free, and \<open>c\<close> is not on the list.
\<close>

theorem coalesce_merges_into_live_block:
  "after_malloc 0 (start [65536, 131072]) (\<lambda>z s1.
     after_malloc 100 s1 (\<lambda>b s2.
       after_malloc 100 s2 (\<lambda>c s3.
         after_free z s3 (\<lambda>s4.
           after_malloc 8320 s4 (\<lambda>d s5.
             z = 65568 \<and> b = 65584 \<and> c = 65712 \<and> d = 131104 \<and>
             GET s5 (HDRP c) = Inr (PACK 128 1) \<and> bindE (FTRP s5 c) (GET s5) = Inr (PACK 128 1) \<and>
             bindE (NEXT_BLKP s5 c) (\<lambda>n. GET s5 (HDRP n)) = Inr (PACK 7888 0) \<and>
             GET s5 (HDRP b) = Inr 65840 \<and>
             after_coalesce c s5 (\<lambda>p s. p = b) \<and>
             after_free c s5 (\<lambda>s6.
               GET s6 (HDRP c) = Inr (PACK 128 0) \<and>
               GET s6 (HDRP b) = Inr (PACK 73856 0) \<and>
               list_head s6 = 139440 \<and>
               GET s6 (node_next 139440) = Inr z \<and>
               GET s6 (node_next z) = Inr 73856))))))"
  by (simp add: scenario_defs op_defs macro_defs find_fit_loop.simps Let_def)

end
